theory Spec2Isabelle
  imports Main "HOL-Library.Word" "HOL-Library.Multiset"
begin

section \<open>Data model\<close>

text \<open>
  Addresses of the bus library (package cemi) are 16-bit integers; a group command is an
  8-bit integer with three named values. The library declares the constants outside the
  repository; they are taken as 0, 1 and 2. The theorems use only that the three differ
  from one another, and the example of a command without a name, 0xFF, only that it is
  none of them.
\<close>

type_synonym GroupAddr = "16 word"
type_synonym IndividualAddr = "16 word"
type_synonym GroupCommand = "8 word"

definition GroupRead :: GroupCommand where "GroupRead = 0"
definition GroupResponse :: GroupCommand where "GroupResponse = 1"
definition GroupWrite :: GroupCommand where "GroupWrite = 2"

text \<open>
  Modelled from the spec: the generated protobuf enumeration v1.Event, whose declaration is
  not among the sources: the enumeration {Unspecified, Read, Response, Write}.
\<close>

datatype Event = EVENT_UNSPECIFIED | EVENT_READ | EVENT_RESPONSE | EVENT_WRITE

text \<open>knx.GroupEvent, as mapper.go reads and writes its fields.\<close>

record GroupEvent =
  Command :: GroupCommand
  Source :: IndividualAddr
  Destination :: GroupAddr
  Data :: "8 word list"

text \<open>The protobuf messages, with the fields the handlers use.\<close>

record SubscribeRequest =
  req_GroupAddresses :: "string list"
  req_Event :: Event

record SubscribeResponse =
  resp_GroupAddress :: string
  resp_PhysicalAddress :: string
  resp_Event :: Event
  resp_Data :: "8 word list"

record PublishRequest =
  pub_GroupAddress :: string
  pub_PhysicalAddress :: string
  pub_Data :: "8 word list"
  pub_Event :: Event

record SubscribeUnaryRequest =
  unary_SubscribeRequest :: SubscribeRequest
  For :: string

record SubscribeUnaryResponse =
  Messages :: "SubscribeResponse list"

text \<open>
  Go error values. \<open>Errorf\<close> is the result of fmt.Errorf with the verbs \<open>%s\<close>, \<open>%v\<close> and
  \<open>%d\<close>: it keeps the format string and its arguments and wraps nothing. \<open>Connect\<close> is
  connect.NewError: a code and the wrapped error.
\<close>

datatype Code = CodeInvalidArgument | CodeInternal | CodeAborted | CodeCanceled
  | CodeDeadlineExceeded | CodeUnavailable | CodeUnknown

datatype goerr =
    Canceled
  | DeadlineExceeded
  | Plain string
  | Errorf string "int list" "goerr list"
  | Connect Code goerr

text \<open>errors.As with a target of type *connect.Error, on a possibly nil error.\<close>

fun errors_As_connect :: "goerr option \<Rightarrow> goerr option" where
  "errors_As_connect None = None"
| "errors_As_connect (Some (Connect c e)) = Some (Connect c e)"
| "errors_As_connect (Some _) = None"

text \<open>errors.Is: the error itself or, through a connect error, what it wraps.\<close>

fun errors_Is :: "goerr \<Rightarrow> goerr \<Rightarrow> bool" where
  "errors_Is (Connect c e) target = (Connect c e = target \<or> errors_Is e target)"
| "errors_Is e target = (e = target)"

text \<open>
  A stream is known to the registry by its pointer only; the pointer is a number here.
  The struct \<open>subscriber\<close> holds the request and the stream of one Subscribe call.
\<close>

type_synonym stream = nat

record subscriber =
  req :: SubscribeRequest
  stream :: stream

text \<open>The two registry fields of Server (config.go); the mutexes are not modelled.\<close>

record Server =
  subscribers :: "GroupAddr \<rightharpoonup> subscriber list"
  sniffers :: "subscriber list"

definition New :: Server where
  "New = \<lparr>subscribers = Map.empty, sniffers = []\<rparr>"

text \<open>
  What the handlers call outside the repository: the address codec, the tunnel, the
  outbound stream of a call, the duration parser. The outcome of the n-th Send of a run
  may depend on n, on the stream and on the message.
\<close>

record env =
  NewGroupAddrString :: "string \<Rightarrow> goerr + GroupAddr"
  NewIndividualAddrString :: "string \<Rightarrow> goerr + IndividualAddr"
  GroupAddr_String :: "GroupAddr \<Rightarrow> string"
  IndividualAddr_String :: "IndividualAddr \<Rightarrow> string"
  tunnel_Send :: "GroupEvent \<Rightarrow> goerr option"
  stream_Send :: "nat \<Rightarrow> stream \<Rightarrow> SubscribeResponse \<Rightarrow> goerr option"
  Peer_Addr :: "stream \<Rightarrow> string"
  ParseDuration :: "string \<Rightarrow> goerr + int"

text \<open>
  The effects of a handler: every Send on a subscriber's stream with its outcome, every
  error line logged, every event handed to the tunnel, each in order.
\<close>

record log_line =
  log_err :: goerr
  log_peer :: string
  log_msg :: string

record world =
  sent :: "(subscriber \<times> SubscribeResponse \<times> goerr option) list"
  logged :: "log_line list"
  tunnel_out :: "GroupEvent list"

section \<open>helper.go\<close>

fun parse_from :: "env \<Rightarrow> int \<Rightarrow> string list \<Rightarrow> GroupAddr list \<Rightarrow> goerr + GroupAddr list" where
  "parse_from e i [] ret = Inr ret"
| "parse_from e i (sga # addresses) ret =
     (case NewGroupAddrString e sga of
        Inl err \<Rightarrow> Inl (Errorf ''parse groupAddress(%d): %s'' [i] [err])
      | Inr ga \<Rightarrow> parse_from e (i + 1) addresses (ret @ [ga]))"

definition parseGroupAddresses :: "env \<Rightarrow> string list \<Rightarrow> goerr + GroupAddr list" where
  "parseGroupAddresses e addresses = parse_from e 0 addresses []"

fun registerSubscriber :: "GroupAddr list \<Rightarrow> SubscribeRequest \<Rightarrow> stream \<Rightarrow> Server \<Rightarrow> Server" where
  "registerSubscriber [] rq st s = s"
| "registerSubscriber (address # addresses) rq st s =
     (let subs = (case subscribers s address of None \<Rightarrow> [] | Some subs \<Rightarrow> subs);
          subs = subs @ [\<lparr>req = rq, stream = st\<rparr>]
      in registerSubscriber addresses rq st (s\<lparr>subscribers := (subscribers s)(address \<mapsto> subs)\<rparr>))"

text \<open>The index of the first element of the slice that holds the stream.\<close>

fun find_stream :: "stream \<Rightarrow> subscriber list \<Rightarrow> nat option" where
  "find_stream st [] = None"
| "find_stream st (x # xs) =
     (if stream x = st then Some 0 else map_option Suc (find_stream st xs))"

text \<open>
  The search loop of both unregister functions: at the first element that holds the stream,
  the last element is moved to its index and the slice loses its last element.
\<close>

definition swap_remove :: "stream \<Rightarrow> subscriber list \<Rightarrow> subscriber list" where
  "swap_remove st subs =
     (case find_stream st subs of
        None \<Rightarrow> subs
      | Some i \<Rightarrow> butlast (subs[i := last subs]))"

text \<open>The body of the loop of unregisterSubscriber, for one address.\<close>

definition unregister_at :: "GroupAddr \<Rightarrow> stream \<Rightarrow> Server \<Rightarrow> Server" where
  "unregister_at address st s =
     (case subscribers s address of
        None \<Rightarrow> s
      | Some subs \<Rightarrow>
          if length subs > 0 \<and> stream (last subs) = st then
            (let subs' = butlast subs in
             if length subs' > 0
             then s\<lparr>subscribers := (subscribers s)(address \<mapsto> subs')\<rparr>
             else s\<lparr>subscribers := (subscribers s)(address := None)\<rparr>)
          else s\<lparr>subscribers := (subscribers s)(address \<mapsto> swap_remove st subs)\<rparr>)"

fun unregisterSubscriber :: "GroupAddr list \<Rightarrow> stream \<Rightarrow> Server \<Rightarrow> Server" where
  "unregisterSubscriber [] st s = s"
| "unregisterSubscriber (address # addresses) st s =
     unregisterSubscriber addresses st (unregister_at address st s)"

definition registerSniffer :: "SubscribeRequest \<Rightarrow> stream \<Rightarrow> Server \<Rightarrow> Server" where
  "registerSniffer rq st s = s\<lparr>sniffers := sniffers s @ [\<lparr>req = rq, stream = st\<rparr>]\<rparr>"

definition unregisterSniffer :: "stream \<Rightarrow> Server \<Rightarrow> Server" where
  "unregisterSniffer st s =
     (if length (sniffers s) > 0 \<and> stream (last (sniffers s)) = st
      then s\<lparr>sniffers := butlast (sniffers s)\<rparr>
      else s\<lparr>sniffers := swap_remove st (sniffers s)\<rparr>)"

section \<open>mapper.go\<close>

definition toV1SubscribeResponse :: "env \<Rightarrow> GroupEvent \<Rightarrow> SubscribeResponse" where
  "toV1SubscribeResponse e event =
     (let ret = \<lparr>resp_GroupAddress = GroupAddr_String e (Destination event),
                 resp_PhysicalAddress = IndividualAddr_String e (Source event),
                 resp_Event = EVENT_UNSPECIFIED,
                 resp_Data = Data event\<rparr>
      in if Command event = GroupRead then ret\<lparr>resp_Event := EVENT_READ\<rparr>
         else if Command event = GroupResponse then ret\<lparr>resp_Event := EVENT_RESPONSE\<rparr>
         else if Command event = GroupWrite then ret\<lparr>resp_Event := EVENT_WRITE\<rparr>
         else ret)"

definition fromV1PublishRequest :: "env \<Rightarrow> PublishRequest \<Rightarrow> goerr + GroupEvent" where
  "fromV1PublishRequest e rq =
     (case NewGroupAddrString e (pub_GroupAddress rq) of
        Inl err \<Rightarrow> Inl (Errorf ''parse groupAddress: %s'' [] [err])
      | Inr ga \<Rightarrow>
          (let event = \<lparr>Command = 0, Source = 0, Destination = ga, Data = pub_Data rq\<rparr>;
               event = event\<lparr>Command :=
                 (case pub_Event rq of
                    EVENT_READ \<Rightarrow> GroupRead
                  | EVENT_RESPONSE \<Rightarrow> GroupResponse
                  | EVENT_WRITE \<Rightarrow> GroupWrite
                  | EVENT_UNSPECIFIED \<Rightarrow> GroupWrite)\<rparr>
           in if length (pub_PhysicalAddress rq) = 0 then Inr event
              else (case NewIndividualAddrString e (pub_PhysicalAddress rq) of
                      Inl err \<Rightarrow> Inl (Errorf ''parse physicalAddress: %s'' [] [err])
                    | Inr src \<Rightarrow> Inr (event\<lparr>Source := src\<rparr>))))"

section \<open>knx.go\<close>

text \<open>
  The loop over the slice, which dispatchToSubscribers and dispatchToSniffers both have,
  with the message each of them logs. A Send that fails is logged; the loop goes on.
\<close>

fun fanout :: "env \<Rightarrow> string \<Rightarrow> SubscribeResponse \<Rightarrow> subscriber list \<Rightarrow> world \<Rightarrow> world" where
  "fanout e msg resp [] w = w"
| "fanout e msg resp (sub # subs) w =
     (if req_Event (req sub) \<noteq> EVENT_UNSPECIFIED \<and> req_Event (req sub) \<noteq> resp_Event resp
      then fanout e msg resp subs w
      else (case stream_Send e (length (sent w)) (stream sub) resp of
              Some err \<Rightarrow>
                fanout e msg resp subs
                  (w\<lparr>sent := sent w @ [(sub, resp, Some err)],
                     logged := logged w @
                       [\<lparr>log_err = err, log_peer = Peer_Addr e (stream sub), log_msg = msg\<rparr>]\<rparr>)
            | None \<Rightarrow>
                fanout e msg resp subs (w\<lparr>sent := sent w @ [(sub, resp, None)]\<rparr>)))"

definition dispatchToSubscribers ::
  "env \<Rightarrow> GroupEvent \<Rightarrow> Server \<Rightarrow> world \<Rightarrow> goerr option \<times> Server \<times> world" where
  "dispatchToSubscribers e event s w =
     (case subscribers s (Destination event) of
        None \<Rightarrow> (None, s, w)
      | Some subs \<Rightarrow>
          (let resp = toV1SubscribeResponse e event
           in (None, s, fanout e ''unable to send response to subscriber'' resp subs w)))"

definition dispatchToSniffers ::
  "env \<Rightarrow> GroupEvent \<Rightarrow> Server \<Rightarrow> world \<Rightarrow> goerr option \<times> Server \<times> world" where
  "dispatchToSniffers e event s w =
     (if length (sniffers s) = 0 then (None, s, w)
      else (let resp = toV1SubscribeResponse e event
            in (None, s, fanout e ''unable to send response to sniffer'' resp (sniffers s) w)))"

definition dispatchEvent ::
  "env \<Rightarrow> GroupEvent \<Rightarrow> Server \<Rightarrow> world \<Rightarrow> goerr option \<times> Server \<times> world" where
  "dispatchEvent e event s w =
     (case dispatchToSubscribers e event s w of
        (Some err, s1, w1) \<Rightarrow> (Some err, s1, w1)
      | (None, s1, w1) \<Rightarrow>
          (case dispatchToSniffers e event s1 w1 of
             (Some err, s2, w2) \<Rightarrow> (Some err, s2, w2)
           | (None, s2, w2) \<Rightarrow> (None, s2, w2)))"

text \<open>
  The reader loop. Its input is the case that each select takes, in order; when the list
  ends the loop waits in select and has not returned.
\<close>

datatype reader_case = CtxDone | Inbound GroupEvent

datatype returned = Waiting | Returned "goerr option"

fun busMessageReader ::
  "env \<Rightarrow> reader_case list \<Rightarrow> Server \<Rightarrow> world \<Rightarrow> returned \<times> Server \<times> world" where
  "busMessageReader e [] s w = (Waiting, s, w)"
| "busMessageReader e (CtxDone # cases) s w = (Returned None, s, w)"
| "busMessageReader e (Inbound event # cases) s w =
     (case dispatchEvent e event s w of
        (Some err, s', w') \<Rightarrow> (Returned (Some err), s', w')
      | (None, s', w') \<Rightarrow> busMessageReader e cases s' w')"

section \<open>rpcs.go\<close>

definition Publish ::
  "env \<Rightarrow> PublishRequest \<Rightarrow> Server \<Rightarrow> world \<Rightarrow> (goerr + unit) \<times> Server \<times> world" where
  "Publish e rq s w =
     (case fromV1PublishRequest e rq of
        Inl err \<Rightarrow> (Inl (Connect CodeInvalidArgument err), s, w)
      | Inr event \<Rightarrow>
          (let w1 = w\<lparr>tunnel_out := tunnel_out w @ [event]\<rparr>
           in case tunnel_Send e event of
                Some err \<Rightarrow> (Inl (Connect CodeInternal err), s, w1)
              | None \<Rightarrow>
                  (case dispatchEvent e event s w1 of
                     (Some err, s', w') \<Rightarrow> (Inl (Connect CodeInternal err), s', w')
                   | (None, s', w') \<Rightarrow> (Inr (), s', w'))))"

text \<open>
  Subscribe up to the select: the addresses parsed and the call registered, or the
  InvalidArgument error.
\<close>

definition Subscribe_register ::
  "env \<Rightarrow> SubscribeRequest \<Rightarrow> stream \<Rightarrow> Server \<Rightarrow> goerr + (GroupAddr list \<times> Server)" where
  "Subscribe_register e rq st s =
     (case parseGroupAddresses e (req_GroupAddresses rq) of
        Inl err \<Rightarrow> Inl (Connect CodeInvalidArgument err)
      | Inr addresses \<Rightarrow>
          Inr (addresses,
               if length addresses > 0 then registerSubscriber addresses rq st s
               else registerSniffer rq st s))"

text \<open>
  The select of Subscribe takes one of two cases: the context of the call is done, or the
  context of the server is, with the error that context reports.
\<close>

datatype subscribe_case = CallDone | ServerDone goerr

definition Subscribe_finish ::
  "GroupAddr list \<Rightarrow> stream \<Rightarrow> subscribe_case \<Rightarrow> Server \<Rightarrow> goerr option \<times> Server" where
  "Subscribe_finish addresses st sel s =
     (case sel of
        ServerDone ctxerr \<Rightarrow> (Some (Connect CodeAborted ctxerr), s)
      | CallDone \<Rightarrow>
          (None,
           if length addresses > 0 then unregisterSubscriber addresses st s
           else unregisterSniffer st s))"

definition Subscribe ::
  "env \<Rightarrow> SubscribeRequest \<Rightarrow> stream \<Rightarrow> subscribe_case \<Rightarrow> Server \<Rightarrow> goerr option \<times> Server" where
  "Subscribe e rq st sel s =
     (case Subscribe_register e rq st s of
        Inl err \<Rightarrow> (Some err, s)
      | Inr (addresses, s1) \<Rightarrow> Subscribe_finish addresses st sel s1)"

text \<open>client.go: NewClient returns a nil error on its only path.\<close>

definition NewClient :: "goerr + unit" where
  "NewClient = Inr ()"

text \<open>
  The stream that client.Subscribe opens, as SubscribeUnary sees it: the messages that
  Receive delivers until it returns false, and the error the stream then reports.
\<close>

record client_stream =
  stream_Msgs :: "SubscribeResponse list"
  stream_Err :: "goerr option"

fun receive_loop :: "string \<Rightarrow> SubscribeResponse list \<Rightarrow> SubscribeResponse list \<Rightarrow> SubscribeResponse list" where
  "receive_loop for [] messages = messages"
| "receive_loop for (msg # rest) messages =
     (let messages = messages @ [msg]
      in if for = [] then messages else receive_loop for rest messages)"

text \<open>
  SubscribeUnary, given what client.Subscribe returns: a stream and an error. After the
  loop the variable \<open>err\<close> that the code inspects is the one client.Subscribe assigned.
\<close>

definition SubscribeUnary ::
  "env \<Rightarrow> SubscribeUnaryRequest \<Rightarrow> client_stream \<times> goerr option \<Rightarrow> goerr + SubscribeUnaryResponse" where
  "SubscribeUnary e rq opened =
     (case NewClient of
        Inl err \<Rightarrow> Inl (Connect CodeInternal (Errorf ''constructing client: %v'' [] [err]))
      | Inr client \<Rightarrow>
          (case (if For rq \<noteq> [] then ParseDuration e (For rq) else Inr 0) of
             Inl err \<Rightarrow> Inl (Connect CodeInvalidArgument (Errorf ''parsing 'for': %v'' [] [err]))
           | Inr dur \<Rightarrow>
               (case opened of (strm, err) \<Rightarrow>
                  (case err of
                     Some failed \<Rightarrow> Inl failed
                   | None \<Rightarrow>
                       (let messages = receive_loop (For rq) (stream_Msgs strm) []
                        in if (case errors_As_connect err of
                                 None \<Rightarrow> False
                               | Some connectErr \<Rightarrow>
                                   \<not> errors_Is connectErr Canceled \<and>
                                   \<not> errors_Is connectErr DeadlineExceeded)
                           then Inl (Connect CodeInternal
                                  (Errorf ''knxrpc stream closed: %s'' []
                                     (case stream_Err strm of None \<Rightarrow> [] | Some x \<Rightarrow> [x])))
                           else Inr \<lparr>Messages = messages\<rparr>)))))"

section \<open>Runs of the registry\<close>

text \<open>
  The four operations that write the registry, as calls made one after the other under
  the locks, and the state after a list of them.
\<close>

datatype registry_op =
    Register "GroupAddr list" SubscribeRequest stream
  | Unregister "GroupAddr list" stream
  | RegisterSniffer SubscribeRequest stream
  | UnregisterSniffer stream

fun op_stream :: "registry_op \<Rightarrow> stream" where
  "op_stream (Register addresses rq st) = st"
| "op_stream (Unregister addresses st) = st"
| "op_stream (RegisterSniffer rq st) = st"
| "op_stream (UnregisterSniffer st) = st"

fun apply_op :: "registry_op \<Rightarrow> Server \<Rightarrow> Server" where
  "apply_op (Register addresses rq st) s = registerSubscriber addresses rq st s"
| "apply_op (Unregister addresses st) s = unregisterSubscriber addresses st s"
| "apply_op (RegisterSniffer rq st) s = registerSniffer rq st s"
| "apply_op (UnregisterSniffer st) s = unregisterSniffer st s"

fun run :: "registry_op list \<Rightarrow> Server \<Rightarrow> Server" where
  "run [] s = s"
| "run (op # ops) s = run ops (apply_op op s)"

text \<open>The registration step of a list of Subscribe calls, each with its own stream.\<close>

fun registrations :: "env \<Rightarrow> (SubscribeRequest \<times> stream) list \<Rightarrow> Server \<Rightarrow> Server" where
  "registrations e [] s = s"
| "registrations e ((rq, st) # calls) s =
     (case Subscribe_register e rq st s of
        Inl err \<Rightarrow> registrations e calls s
      | Inr (addresses, s') \<Rightarrow> registrations e calls s')"

text \<open>How often a stream occurs in a slice, and in the slice of a group address.\<close>

definition occ_in :: "stream \<Rightarrow> subscriber list \<Rightarrow> nat" where
  "occ_in st subs = length (filter (\<lambda>x. stream x = st) subs)"

definition occurrences :: "Server \<Rightarrow> GroupAddr \<Rightarrow> stream \<Rightarrow> nat" where
  "occurrences s t st = (case subscribers s t of None \<Rightarrow> 0 | Some subs \<Rightarrow> occ_in st subs)"

definition no_empty :: "Server \<Rightarrow> bool" where
  "no_empty s = (\<forall>t. subscribers s t \<noteq> Some [])"

text \<open>The filter of both dispatch loops: the subscriber asked for every kind or for this one.\<close>

definition wants :: "SubscribeResponse \<Rightarrow> subscriber \<Rightarrow> bool" where
  "wants resp sub = (req_Event (req sub) = EVENT_UNSPECIFIED \<or> req_Event (req sub) = resp_Event resp)"

definition topic_subs :: "Server \<Rightarrow> GroupAddr \<Rightarrow> subscriber list" where
  "topic_subs s t = (case subscribers s t of None \<Rightarrow> [] | Some subs \<Rightarrow> subs)"

text \<open>
  What a dispatch loop is expected to do on the subscribers that pass its filter: one Send
  for each, in order, the n-th Send of the run with the outcome the stream gives it, and
  one log line for each Send that failed, with the peer of its stream.
\<close>

fun outcomes ::
  "env \<Rightarrow> nat \<Rightarrow> SubscribeResponse \<Rightarrow> subscriber list \<Rightarrow> (subscriber \<times> SubscribeResponse \<times> goerr option) list" where
  "outcomes e n resp [] = []"
| "outcomes e n resp (sub # subs) =
     (sub, resp, stream_Send e n (stream sub) resp) # outcomes e (Suc n) resp subs"

fun log_lines ::
  "env \<Rightarrow> string \<Rightarrow> (subscriber \<times> SubscribeResponse \<times> goerr option) list \<Rightarrow> log_line list" where
  "log_lines e msg [] = []"
| "log_lines e msg ((sub, resp, None) # outs) = log_lines e msg outs"
| "log_lines e msg ((sub, resp, Some err) # outs) =
     \<lparr>log_err = err, log_peer = Peer_Addr e (stream sub), log_msg = msg\<rparr> # log_lines e msg outs"

text \<open>The Sends that a handler added to the world it started in.\<close>

definition delivered :: "world \<Rightarrow> world \<Rightarrow> (subscriber \<times> SubscribeResponse \<times> goerr option) list" where
  "delivered w w' = drop (length (sent w)) (sent w')"

section \<open>An environment and requests for the examples\<close>

text \<open>
  The codec on the addresses the examples use (1/2/3 is 0x0A03, 4/5/6 is 0x2506), a tunnel
  that accepts every event, and streams of which the one numbered 2 fails every Send.
\<close>

definition example_env :: env where
  "example_env =
     \<lparr>NewGroupAddrString = (\<lambda>a. if a = ''1/2/3'' then Inr 0x0A03
                                else if a = ''4/5/6'' then Inr 0x2506
                                else Inl (Plain ''invalid group address'')),
      NewIndividualAddrString = (\<lambda>a. if a = ''1.1.1'' then Inr 0x1101
                                     else Inl (Plain ''invalid individual address'')),
      GroupAddr_String = (\<lambda>a. if a = 0x0A03 then ''1/2/3''
                              else if a = 0x2506 then ''4/5/6'' else ''0/0/0''),
      IndividualAddr_String = (\<lambda>a. if a = 0x1101 then ''1.1.1'' else ''0.0.0''),
      tunnel_Send = (\<lambda>event. None),
      stream_Send = (\<lambda>n st resp. if st = 2 then Some (Plain ''broken pipe'') else None),
      Peer_Addr = (\<lambda>st. if st = 1 then ''10.0.0.1'' else if st = 2 then ''10.0.0.2'' else ''10.0.0.3''),
      ParseDuration = (\<lambda>d. if d = ''500ms'' then Inr 500000000
                            else Inl (Plain ''invalid duration''))\<rparr>"

text \<open>The same environment with a tunnel that refuses every event.\<close>

definition broken_tunnel_env :: env where
  "broken_tunnel_env = example_env\<lparr>tunnel_Send := (\<lambda>event. Some (Plain ''tunnel closed''))\<rparr>"

definition empty_world :: world where
  "empty_world = \<lparr>sent = [], logged = [], tunnel_out = []\<rparr>"

definition any_123 :: SubscribeRequest where
  "any_123 = \<lparr>req_GroupAddresses = [''1/2/3''], req_Event = EVENT_UNSPECIFIED\<rparr>"

definition read_123 :: SubscribeRequest where
  "read_123 = \<lparr>req_GroupAddresses = [''1/2/3''], req_Event = EVENT_READ\<rparr>"

definition twice_123 :: SubscribeRequest where
  "twice_123 = \<lparr>req_GroupAddresses = [''1/2/3'', ''1/2/3''], req_Event = EVENT_UNSPECIFIED\<rparr>"

definition sniff_any :: SubscribeRequest where
  "sniff_any = \<lparr>req_GroupAddresses = [], req_Event = EVENT_UNSPECIFIED\<rparr>"

definition sniff_response :: SubscribeRequest where
  "sniff_response = \<lparr>req_GroupAddresses = [], req_Event = EVENT_RESPONSE\<rparr>"

definition write_123 :: PublishRequest where
  "write_123 = \<lparr>pub_GroupAddress = ''1/2/3'', pub_PhysicalAddress = [],
                  pub_Data = [1], pub_Event = EVENT_WRITE\<rparr>"

definition ask_123 :: PublishRequest where
  "ask_123 = \<lparr>pub_GroupAddress = ''1/2/3'', pub_PhysicalAddress = [],
                pub_Data = [], pub_Event = EVENT_READ\<rparr>"

text \<open>
  The events that the two publish requests convert to, and an event on the same address
  whose command is none of the three the library names.
\<close>

definition write_event :: GroupEvent where
  "write_event = \<lparr>Command = GroupWrite, Source = 0, Destination = 0x0A03, Data = [1]\<rparr>"

definition read_event :: GroupEvent where
  "read_event = \<lparr>Command = GroupRead, Source = 0, Destination = 0x0A03, Data = []\<rparr>"

definition unknown_event :: GroupEvent where
  "unknown_event = \<lparr>Command = 0xFF, Source = 0, Destination = 0x0A03, Data = []\<rparr>"

text \<open>
  A registry with three calls: stream 1 on 1/2/3 for every kind, stream 2 on 1/2/3 for
  reads, stream 3 as a sniffer for every kind.
\<close>

definition example_server :: Server where
  "example_server =
     \<lparr>subscribers = [0x0A03 \<mapsto> [\<lparr>req = any_123, stream = 1\<rparr>, \<lparr>req = read_123, stream = 2\<rparr>]],
      sniffers = [\<lparr>req = sniff_any, stream = 3\<rparr>]\<rparr>"

text \<open>
  A registry for the published write: at 1/2/3 stream 1 for every kind, stream 2 for reads
  and stream 4 for writes; as sniffers stream 3 for every kind and stream 5 for responses.
\<close>

definition only_write_123 :: SubscribeRequest where
  "only_write_123 = \<lparr>req_GroupAddresses = [''1/2/3''], req_Event = EVENT_WRITE\<rparr>"

definition publish_server :: Server where
  "publish_server =
     \<lparr>subscribers = [0x0A03 \<mapsto> [\<lparr>req = any_123, stream = 1\<rparr>, \<lparr>req = read_123, stream = 2\<rparr>,
                                \<lparr>req = only_write_123, stream = 4\<rparr>]],
      sniffers = [\<lparr>req = sniff_any, stream = 3\<rparr>, \<lparr>req = sniff_response, stream = 5\<rparr>]\<rparr>"

section \<open>The registry under its operations\<close>

lemma mset_butlast:
  assumes "xs \<noteq> []"
  shows "mset (butlast xs) = mset xs - {#last xs#}"
proof -
  have "mset xs = mset (butlast xs @ [last xs])" using assms by simp
  then show ?thesis by simp
qed

lemma mset_swap_butlast:
  assumes "i < length xs"
  shows "mset (butlast (xs[i := last xs])) = mset xs - {#xs ! i#}"
proof (cases "i = length xs - 1")
  case True
  from assms have "xs \<noteq> []" by auto
  with True have "xs ! i = last xs" by (simp add: last_conv_nth)
  then have "xs[i := last xs] = xs" by (metis list_update_id)
  with \<open>xs \<noteq> []\<close> show ?thesis using \<open>xs ! i = last xs\<close>
    by (metis mset_butlast)
next
  case False
  let ?ys = "xs[i := last xs]"
  from assms have ne: "?ys \<noteq> []" by auto
  from assms have "xs \<noteq> []" by auto
  with False have "last ?ys = last xs"
    by (simp add: last_list_update)
  with ne have "mset (butlast ?ys) = mset ?ys - {#last xs#}"
    by (metis mset_butlast)
  also have "mset ?ys = add_mset (last xs) (mset xs - {#xs ! i#})"
    using assms by (simp add: mset_update)
  finally show ?thesis by simp
qed

lemma occ_in_mset: "occ_in st subs = size {#x \<in># mset subs. stream x = st#}"
  by (simp add: occ_in_def flip: mset_filter)

lemma find_stream_Some:
  "find_stream st subs = Some i \<Longrightarrow> i < length subs \<and> stream (subs ! i) = st"
  by (induction subs arbitrary: i) (auto split: if_splits)

lemma find_stream_None: "find_stream st subs = None \<longleftrightarrow> occ_in st subs = 0"
  by (induction subs) (auto simp: occ_in_def)

lemma occ_in_swap_remove:
  "occ_in st' (swap_remove st subs) = (if st' = st then occ_in st subs - 1 else occ_in st' subs)"
proof (cases "find_stream st subs")
  case None
  then show ?thesis using find_stream_None[of st subs] by (simp add: swap_remove_def)
next
  case (Some i)
  then have i: "i < length subs" "stream (subs ! i) = st" using find_stream_Some by auto
  have m: "mset (swap_remove st subs) = mset subs - {#subs ! i#}"
    using Some i mset_swap_butlast by (simp add: swap_remove_def)
  have "subs ! i \<in># mset subs" using i by simp
  then show ?thesis using i unfolding occ_in_mset m
    by (auto simp: filter_diff_mset size_Diff_singleton)
qed

lemma length_swap_remove:
  "length (swap_remove st subs) = (if occ_in st subs = 0 then length subs else length subs - 1)"
  using find_stream_None[of st subs]
  by (auto simp: swap_remove_def split: option.splits)


lemma occ_in_butlast:
  assumes "subs \<noteq> []"
  shows "occ_in st' (butlast subs) =
         (if stream (last subs) = st' then occ_in st' subs - 1 else occ_in st' subs)"
proof -
  have "occ_in st' subs = occ_in st' (butlast subs @ [last subs])" using assms by simp
  then show ?thesis by (simp add: occ_in_def)
qed

lemma swap_remove_not_Nil:
  assumes "subs \<noteq> []" and "stream (last subs) \<noteq> st"
  shows "swap_remove st subs \<noteq> []"
proof (cases "occ_in st subs = 0")
  case True
  then show ?thesis using assms length_swap_remove[of st subs] by auto
next
  case False
  have "length subs \<noteq> 1"
  proof
    assume "length subs = 1"
    then obtain x where "subs = [x]" by (cases subs) auto
    with assms False show False by (simp add: occ_in_def)
  qed
  with assms have "length subs - 1 \<noteq> 0" by (cases subs) auto
  with False show ?thesis using length_swap_remove[of st subs] by auto
qed

lemma occurrences_unregister_at:
  "occurrences (unregister_at a st s) t st' =
     (if t = a \<and> st' = st then occurrences s a st - 1 else occurrences s t st')"
proof (cases "subscribers s a")
  case None
  then show ?thesis by (simp add: unregister_at_def occurrences_def)
next
  case (Some subs)
  show ?thesis
  proof (cases "length subs > 0 \<and> stream (last subs) = st")
    case True
    then have ne: "subs \<noteq> []" by auto
    have del: "butlast subs = [] \<Longrightarrow> occ_in st' (butlast subs) = 0"
      by (simp add: occ_in_def)
    have at: "occurrences (unregister_at a st s) a st' = occ_in st' (butlast subs)"
      using Some True del by (auto simp: unregister_at_def occurrences_def Let_def)
    have off: "t \<noteq> a \<Longrightarrow> occurrences (unregister_at a st s) t st' = occurrences s t st'"
      using Some True by (auto simp: unregister_at_def occurrences_def Let_def)
    have here: "occurrences s a x = occ_in x subs" for x
      using Some by (simp add: occurrences_def)
    show ?thesis
    proof (cases "t = a")
      case eq: True
      show ?thesis unfolding eq at using True occ_in_butlast[OF ne, of st'] by (auto simp: here)
    next
      case False
      then show ?thesis using off by simp
    qed
  next
    case False
    then show ?thesis using Some
      by (auto simp: unregister_at_def occurrences_def occ_in_swap_remove)
  qed
qed

lemma no_empty_unregister_at:
  assumes "no_empty s"
  shows "no_empty (unregister_at a st s)"
proof (cases "subscribers s a")
  case None
  then show ?thesis using assms by (simp add: unregister_at_def)
next
  case (Some subs)
  with assms have ne: "subs \<noteq> []" by (auto simp: no_empty_def)
  show ?thesis
  proof (cases "stream (last subs) = st")
    case True
    then show ?thesis using Some ne assms
      by (auto simp: unregister_at_def no_empty_def Let_def)
  next
    case False
    with ne have "swap_remove st subs \<noteq> []" by (rule swap_remove_not_Nil)
    then show ?thesis using Some False assms
      by (auto simp: unregister_at_def no_empty_def)
  qed
qed

lemma sniffers_unregister_at: "sniffers (unregister_at a st s) = sniffers s"
  by (simp add: unregister_at_def Let_def split: option.splits)

lemma occurrences_unregisterSubscriber:
  "occurrences (unregisterSubscriber T st s) t st' =
     (if st' = st then occurrences s t st - count_list T t else occurrences s t st')"
  by (induction T arbitrary: s) (auto simp: occurrences_unregister_at)

lemma no_empty_unregisterSubscriber: "no_empty s \<Longrightarrow> no_empty (unregisterSubscriber T st s)"
  by (induction T arbitrary: s) (auto simp: no_empty_unregister_at)

lemma sniffers_unregisterSubscriber: "sniffers (unregisterSubscriber T st s) = sniffers s"
  by (induction T arbitrary: s) (auto simp: sniffers_unregister_at)

lemma occurrences_registerSubscriber:
  "occurrences (registerSubscriber T rq st s) t st' =
     occurrences s t st' + (if st' = st then count_list T t else 0)"
  by (induction T arbitrary: s) (auto simp: occurrences_def occ_in_def Let_def split: option.splits)

lemma no_empty_registerSubscriber: "no_empty s \<Longrightarrow> no_empty (registerSubscriber T rq st s)"
  by (induction T arbitrary: s) (auto simp: no_empty_def Let_def)

lemma sniffers_registerSubscriber: "sniffers (registerSubscriber T rq st s) = sniffers s"
  by (induction T arbitrary: s) (auto simp: Let_def)

lemma subscribers_registerSniffer: "subscribers (registerSniffer rq st s) = subscribers s"
  by (simp add: registerSniffer_def)

lemma subscribers_unregisterSniffer: "subscribers (unregisterSniffer st s) = subscribers s"
  by (simp add: unregisterSniffer_def)

lemma occ_sniffers_registerSniffer:
  "occ_in st' (sniffers (registerSniffer rq st s)) =
     occ_in st' (sniffers s) + (if st' = st then 1 else 0)"
  by (simp add: registerSniffer_def occ_in_def)

lemma occ_sniffers_unregisterSniffer:
  "occ_in st' (sniffers (unregisterSniffer st s)) =
     (if st' = st then occ_in st (sniffers s) - 1 else occ_in st' (sniffers s))"
  by (auto simp: unregisterSniffer_def occ_in_butlast occ_in_swap_remove)

lemma no_empty_registerSniffer: "no_empty (registerSniffer rq st s) = no_empty s"
  by (simp add: no_empty_def subscribers_registerSniffer)

lemma no_empty_unregisterSniffer: "no_empty (unregisterSniffer st s) = no_empty s"
  by (simp add: no_empty_def subscribers_unregisterSniffer)

lemma occurrences_registerSniffer: "occurrences (registerSniffer rq st s) = occurrences s"
  by (simp add: occurrences_def subscribers_registerSniffer fun_eq_iff)

lemma occurrences_unregisterSniffer: "occurrences (unregisterSniffer st s) = occurrences s"
  by (simp add: occurrences_def subscribers_unregisterSniffer fun_eq_iff)

lemma occurrences_New: "occurrences New t st = 0"
  by (simp add: occurrences_def New_def)

lemma no_empty_apply_op: "no_empty s \<Longrightarrow> no_empty (apply_op op s)"
  by (cases op)
     (simp_all add: no_empty_unregisterSubscriber no_empty_registerSubscriber
                 no_empty_registerSniffer no_empty_unregisterSniffer)

lemma no_empty_run: "no_empty s \<Longrightarrow> no_empty (run ops s)"
  by (induction ops arbitrary: s) (auto simp: no_empty_apply_op)

lemma no_empty_New: "no_empty New"
  by (simp add: no_empty_def New_def)

lemma occurrences_apply_op_other:
  "op_stream op \<noteq> st \<Longrightarrow> occurrences (apply_op op s) t st = occurrences s t st"
  by (cases op)
     (simp_all add: occurrences_unregisterSubscriber occurrences_registerSubscriber
                 occurrences_registerSniffer occurrences_unregisterSniffer)

lemma occurrences_run_other:
  "\<forall>op \<in> set ops. op_stream op \<noteq> st \<Longrightarrow> occurrences (run ops s) t st = occurrences s t st"
  by (induction ops arbitrary: s) (auto simp: occurrences_apply_op_other)

lemma occ_sniffers_apply_op_other:
  "op_stream op \<noteq> st \<Longrightarrow> occ_in st (sniffers (apply_op op s)) = occ_in st (sniffers s)"
  by (cases op)
     (auto simp: sniffers_unregisterSubscriber sniffers_registerSubscriber
                 occ_sniffers_registerSniffer occ_sniffers_unregisterSniffer)

lemma occ_sniffers_run_other:
  "\<forall>op \<in> set ops. op_stream op \<noteq> st \<Longrightarrow> occ_in st (sniffers (run ops s)) = occ_in st (sniffers s)"
  by (induction ops arbitrary: s) (auto simp: occ_sniffers_apply_op_other)

lemma run_append: "run (xs @ ys) s = run ys (run xs s)"
  by (induction xs arbitrary: s) simp_all

lemma registered_exactly_after_register:
  assumes "\<forall>op \<in> set before. op_stream op \<noteq> st"
      and "\<forall>op \<in> set between. op_stream op \<noteq> st"
  shows "occurrences (run (before @ Register T rq st # between) New) t st = count_list T t"
  using assms
  by (simp add: run_append occurrences_run_other occurrences_registerSubscriber occurrences_New)

lemma parse_from_length:
  "parse_from e i xs ret = Inr as \<Longrightarrow> length as = length ret + length xs"
  by (induction xs arbitrary: i ret) (auto split: sum.splits)

lemma parseGroupAddresses_Nil_iff:
  "parseGroupAddresses e xs = Inr as \<Longrightarrow> (as = []) = (xs = [])"
  using parse_from_length[of e 0 xs "[]" as] by (auto simp: parseGroupAddresses_def)

lemma occurrences_Subscribe_register:
  assumes "Subscribe_register e rq st s = Inr (addresses, s')"
  shows "occurrences s' t st' =
           occurrences s t st' + (if st' = st then count_list addresses t else 0)"
    and "occ_in st' (sniffers s') =
           occ_in st' (sniffers s) + (if st' = st \<and> addresses = [] then 1 else 0)"
    and "parseGroupAddresses e (req_GroupAddresses rq) = Inr addresses"
  using assms
  by (auto simp: Subscribe_register_def occurrences_registerSubscriber occurrences_registerSniffer
        sniffers_registerSubscriber occ_sniffers_registerSniffer split: sum.splits if_splits)

lemma registrations_other:
  "st \<notin> snd ` set calls \<Longrightarrow>
   occurrences (registrations e calls s) t st = occurrences s t st \<and>
   occ_in st (sniffers (registrations e calls s)) = occ_in st (sniffers s)"
proof (induction calls arbitrary: s)
  case Nil
  then show ?case by simp
next
  case (Cons c calls)
  obtain rq' st' where c: "c = (rq', st')" by (cases c)
  with Cons.prems have ne: "st \<noteq> st'" and rest: "st \<notin> snd ` set calls" by auto
  show ?case
  proof (cases "Subscribe_register e rq' st' s")
    case (Inl err)
    then show ?thesis using c Cons.IH[OF rest] by simp
  next
    case (Inr p)
    obtain addresses s' where p: "p = (addresses, s')" by (cases p)
    from Inr p have r: "Subscribe_register e rq' st' s = Inr (addresses, s')" by simp
    show ?thesis
      using c r ne Cons.IH[OF rest, of s']
        occurrences_Subscribe_register(1)[OF r, of t st]
        occurrences_Subscribe_register(2)[OF r, of st]
      by simp
  qed
qed

lemma registrations_count:
  assumes "distinct (map snd calls)" and "(rq, st) \<in> set calls"
      and "parseGroupAddresses e (req_GroupAddresses rq) = Inr addresses"
  shows "occurrences (registrations e calls s) t st = occurrences s t st + count_list addresses t \<and>
         occ_in st (sniffers (registrations e calls s)) =
           occ_in st (sniffers s) + (if addresses = [] then 1 else 0)"
  using assms(1,2)
proof (induction calls arbitrary: s)
  case Nil
  then show ?case by simp
next
  case (Cons c calls)
  obtain rq' st' where c: "c = (rq', st')" by (cases c)
  from Cons.prems c have fresh: "st' \<notin> snd ` set calls" and dist: "distinct (map snd calls)"
    by auto
  show ?case
  proof (cases "c = (rq, st)")
    case True
    with c have eq: "rq' = rq" "st' = st" by auto
    have r: "Subscribe_register e rq st s =
               Inr (addresses, if length addresses > 0 then registerSubscriber addresses rq st s
                               else registerSniffer rq st s)"
      using assms(3) by (simp add: Subscribe_register_def)
    show ?thesis
      using c eq r fresh registrations_other[of st calls e _ t]
        occurrences_Subscribe_register(1)[OF r, of t st]
        occurrences_Subscribe_register(2)[OF r, of st]
      by simp
  next
    case False
    with Cons.prems have mem: "(rq, st) \<in> set calls" by auto
    with fresh have ne: "st \<noteq> st'" by force
    show ?thesis
    proof (cases "Subscribe_register e rq' st' s")
      case (Inl err)
      then show ?thesis using c Cons.IH[OF dist mem] by simp
    next
      case (Inr p)
      obtain addresses' s' where p: "p = (addresses', s')" by (cases p)
      from Inr p have r: "Subscribe_register e rq' st' s = Inr (addresses', s')" by simp
      show ?thesis
        using c r ne Cons.IH[OF dist mem, of s']
          occurrences_Subscribe_register(1)[OF r, of t st]
          occurrences_Subscribe_register(2)[OF r, of st]
        by simp
    qed
  qed
qed

section \<open>Dispatch\<close>

lemma fanout_world:
  "fanout e msg resp subs w =
     w\<lparr>sent := sent w @ outcomes e (length (sent w)) resp (filter (wants resp) subs),
       logged := logged w @
         log_lines e msg (outcomes e (length (sent w)) resp (filter (wants resp) subs))\<rparr>"
proof (induction subs arbitrary: w)
  case Nil
  then show ?case by simp
next
  case (Cons sub subs)
  show ?case
  proof (cases "wants resp sub")
    case False
    then show ?thesis using Cons.IH[of w] by (simp add: wants_def)
  next
    case True
    then show ?thesis
      by (cases "stream_Send e (length (sent w)) (stream sub) resp")
         (auto simp: wants_def Cons.IH)
  qed
qed

lemma log_lines_append: "log_lines e msg (xs @ ys) = log_lines e msg xs @ log_lines e msg ys"
  by (induction e msg xs rule: log_lines.induct) simp_all

lemma map_fst_outcomes: "map fst (outcomes e n resp subs) = subs"
  by (induction subs arbitrary: n) simp_all

lemma length_outcomes: "length (outcomes e n resp subs) = length subs"
  by (induction subs arbitrary: n) simp_all

lemma set_outcomes:
  "(sub, r, out) \<in> set (outcomes e n resp subs) \<Longrightarrow> sub \<in> set subs \<and> r = resp"
  by (induction subs arbitrary: n) auto

lemma outcomes_covers:
  "sub \<in> set subs \<Longrightarrow> \<exists>out. (sub, resp, out) \<in> set (outcomes e n resp subs)"
  by (induction subs arbitrary: n) auto

lemma dispatchToSubscribers_world:
  "dispatchToSubscribers e event s w =
     (None, s, fanout e ''unable to send response to subscriber''
                 (toV1SubscribeResponse e event) (topic_subs s (Destination event)) w)"
  by (simp add: dispatchToSubscribers_def topic_subs_def split: option.splits)

lemma dispatchToSniffers_world:
  "dispatchToSniffers e event s w =
     (None, s, fanout e ''unable to send response to sniffer''
                 (toV1SubscribeResponse e event) (sniffers s) w)"
  by (simp add: dispatchToSniffers_def)

lemma dispatchEvent_world:
  "dispatchEvent e event s w =
     (None, s,
      fanout e ''unable to send response to sniffer'' (toV1SubscribeResponse e event) (sniffers s)
        (fanout e ''unable to send response to subscriber'' (toV1SubscribeResponse e event)
           (topic_subs s (Destination event)) w))"
  by (simp add: dispatchEvent_def dispatchToSubscribers_world dispatchToSniffers_world)

lemma dispatchEvent_delivered:
  assumes "dispatchEvent e event s w = (r, s', w')"
  shows "delivered w w' =
     outcomes e (length (sent w)) (toV1SubscribeResponse e event)
       (filter (wants (toV1SubscribeResponse e event)) (topic_subs s (Destination event))) @
     outcomes e (length (sent w) +
                 length (filter (wants (toV1SubscribeResponse e event)) (topic_subs s (Destination event))))
       (toV1SubscribeResponse e event)
       (filter (wants (toV1SubscribeResponse e event)) (sniffers s))"
  using assms unfolding dispatchEvent_world delivered_def
  by (auto simp: fanout_world length_outcomes)


lemma dispatchEvent_result:
  assumes "dispatchEvent e event s w = (r, s', w')"
  shows "r = None" and "s' = s"
  using assms unfolding dispatchEvent_world by auto

lemma dispatchEvent_logged:
  assumes "dispatchEvent e event s w = (r, s', w')"
  shows "logged w' = logged w @
     log_lines e ''unable to send response to subscriber''
       (outcomes e (length (sent w)) (toV1SubscribeResponse e event)
          (filter (wants (toV1SubscribeResponse e event)) (topic_subs s (Destination event)))) @
     log_lines e ''unable to send response to sniffer''
       (outcomes e (length (sent w) +
                 length (filter (wants (toV1SubscribeResponse e event)) (topic_subs s (Destination event))))
          (toV1SubscribeResponse e event)
          (filter (wants (toV1SubscribeResponse e event)) (sniffers s)))"
  using assms unfolding dispatchEvent_world
  by (auto simp: fanout_world length_outcomes)

lemma dispatchEvent_tunnel_out:
  assumes "dispatchEvent e event s w = (r, s', w')"
  shows "tunnel_out w' = tunnel_out w"
  using assms unfolding dispatchEvent_world
  by (auto simp: fanout_world)

lemma log_lines_has_failure:
  "(sub, resp, Some err) \<in> set outs \<Longrightarrow>
   \<lparr>log_err = err, log_peer = Peer_Addr e (stream sub), log_msg = msg\<rparr> \<in> set (log_lines e msg outs)"
  by (induction e msg outs rule: log_lines.induct) auto

lemma length_log_lines:
  "length (log_lines e msg outs) = length (filter (\<lambda>x. snd (snd x) \<noteq> None) outs)"
  by (induction e msg outs rule: log_lines.induct) auto

lemma toV1_Event:
  "resp_Event (toV1SubscribeResponse e event) =
     (if Command event = GroupRead then EVENT_READ
      else if Command event = GroupResponse then EVENT_RESPONSE
      else if Command event = GroupWrite then EVENT_WRITE
      else EVENT_UNSPECIFIED)"
  by (simp add: toV1SubscribeResponse_def Let_def)

lemma fromV1_Command:
  "fromV1PublishRequest e rq = Inr event \<Longrightarrow>
   Command event \<in> {GroupRead, GroupResponse, GroupWrite}"
  by (cases "pub_Event rq")
     (auto simp: fromV1PublishRequest_def Let_def split: sum.splits if_splits)

lemma busMessageReader_returns:
  "busMessageReader e cases s w = (Returned r, s', w') \<Longrightarrow> r = None \<and> CtxDone \<in> set cases"
proof (induction e cases s w rule: busMessageReader.induct)
  case (1 e s w)
  then show ?case by simp
next
  case (2 e cases s w)
  then show ?case by simp
next
  case (3 e event cases s w)
  obtain r1 s1 w1 where d: "dispatchEvent e event s w = (r1, s1, w1)"
    by (cases "dispatchEvent e event s w") auto
  then have "r1 = None" by (rule dispatchEvent_result)
  with d 3 show ?case by auto
qed

lemma busMessageReader_stops:
  "CtxDone \<in> set cases \<Longrightarrow> \<exists>s' w'. busMessageReader e cases s w = (Returned None, s', w')"
proof (induction e cases s w rule: busMessageReader.induct)
  case (1 e s w)
  then show ?case by simp
next
  case (2 e cases s w)
  then show ?case by simp
next
  case (3 e event cases s w)
  obtain r1 s1 w1 where d: "dispatchEvent e event s w = (r1, s1, w1)"
    by (cases "dispatchEvent e event s w") auto
  then have "r1 = None" by (rule dispatchEvent_result)
  with d 3 show ?case by auto
qed

lemma dispatchEvent_map_fst:
  assumes "dispatchEvent e event s w = (r, s', w')"
  shows "map fst (delivered w w') =
           filter (wants (toV1SubscribeResponse e event)) (topic_subs s (Destination event)) @
           filter (wants (toV1SubscribeResponse e event)) (sniffers s)"
  unfolding dispatchEvent_delivered[OF assms] by (simp add: map_fst_outcomes)

lemma delivered_tunnel_out [simp]:
  "delivered (w\<lparr>tunnel_out := x\<rparr>) w' = delivered w w'"
  by (simp add: delivered_def)

lemma delivered_self [simp]: "delivered w (w\<lparr>tunnel_out := x\<rparr>) = []"
  by (simp add: delivered_def)

lemma outcomes_append:
  "outcomes e n resp (xs @ ys) = outcomes e n resp xs @ outcomes e (n + length xs) resp ys"
  by (induction xs arbitrary: n) simp_all

lemma nth_outcomes:
  "i < length subs \<Longrightarrow>
   outcomes e n resp subs ! i = (subs ! i, resp, stream_Send e (n + i) (stream (subs ! i)) resp)"
proof (induction subs arbitrary: n i)
  case Nil
  then show ?case by simp
next
  case (Cons sub subs)
  then show ?case by (cases i) simp_all
qed

lemma dispatchEvent_delivered_all:
  assumes "dispatchEvent e event s w = (r, s', w')"
  shows "delivered w w' =
     outcomes e (length (sent w)) (toV1SubscribeResponse e event)
       (filter (wants (toV1SubscribeResponse e event)) (topic_subs s (Destination event)) @
        filter (wants (toV1SubscribeResponse e event)) (sniffers s))"
  unfolding dispatchEvent_delivered[OF assms] by (simp add: outcomes_append)

lemma dispatchEvent_new_logged:
  assumes "dispatchEvent e event s w = (r, s', w')"
  shows "\<exists>outs1 outs2. delivered w w' = outs1 @ outs2 \<and>
           drop (length (logged w)) (logged w') =
             log_lines e ''unable to send response to subscriber'' outs1 @
             log_lines e ''unable to send response to sniffer'' outs2"
  using dispatchEvent_delivered[OF assms] dispatchEvent_logged[OF assms] by auto

lemma Publish_not_failed_by_dispatch:
  assumes "fromV1PublishRequest e rq = Inr event" and "tunnel_Send e event = None"
  shows "fst (Publish e rq s w) = Inr ()"
proof -
  let ?w1 = "w\<lparr>tunnel_out := tunnel_out w @ [event]\<rparr>"
  obtain r s' w' where d: "dispatchEvent e event s ?w1 = (r, s', w')"
    by (cases "dispatchEvent e event s ?w1") auto
  then have "r = None" by (rule dispatchEvent_result)
  with assms d show ?thesis by (simp add: Publish_def Let_def)
qed

lemma Publish_Internal_only_from_tunnel:
  assumes "fst (Publish e rq s w) = Inl (Connect CodeInternal err)"
  shows "\<exists>event. fromV1PublishRequest e rq = Inr event \<and> tunnel_Send e event = Some err"
proof (cases "fromV1PublishRequest e rq")
  case (Inl bad)
  with assms show ?thesis by (simp add: Publish_def)
next
  case (Inr event)
  show ?thesis
  proof (cases "tunnel_Send e event")
    case None
    with Inr have "fst (Publish e rq s w) = Inr ()" by (rule Publish_not_failed_by_dispatch)
    with assms show ?thesis by simp
  next
    case (Some err')
    with Inr assms show ?thesis by (simp add: Publish_def Let_def)
  qed
qed

lemma fromV1_fields:
  assumes "fromV1PublishRequest e rq = Inr event"
  shows "NewGroupAddrString e (pub_GroupAddress rq) = Inr (Destination event)"
    and "Data event = pub_Data rq"
    and "Command event =
           (case pub_Event rq of
              EVENT_READ \<Rightarrow> GroupRead
            | EVENT_RESPONSE \<Rightarrow> GroupResponse
            | EVENT_WRITE \<Rightarrow> GroupWrite
            | EVENT_UNSPECIFIED \<Rightarrow> GroupWrite)"
    and "if pub_PhysicalAddress rq = [] then Source event = 0
         else NewIndividualAddrString e (pub_PhysicalAddress rq) = Inr (Source event)"
  using assms
  by (auto simp: fromV1PublishRequest_def Let_def split: sum.splits if_splits)

lemma toV1_published:
  assumes "fromV1PublishRequest e rq = Inr event"
  shows "toV1SubscribeResponse e event =
           \<lparr>resp_GroupAddress = GroupAddr_String e (Destination event),
            resp_PhysicalAddress = IndividualAddr_String e (Source event),
            resp_Event = (if pub_Event rq = EVENT_UNSPECIFIED then EVENT_WRITE else pub_Event rq),
            resp_Data = pub_Data rq\<rparr>"
  using fromV1_fields(2,3)[OF assms]
  by (cases "pub_Event rq")
     (simp_all add: toV1SubscribeResponse_def Let_def GroupRead_def GroupResponse_def GroupWrite_def)

lemma wants_published:
  assumes "fromV1PublishRequest e rq = Inr event"
  shows "wants (toV1SubscribeResponse e event) =
           (\<lambda>sub. req_Event (req sub) = EVENT_UNSPECIFIED \<or>
                  req_Event (req sub) =
                    (if pub_Event rq = EVENT_UNSPECIFIED then EVENT_WRITE else pub_Event rq))"
  unfolding toV1_published[OF assms] by (simp add: wants_def fun_eq_iff)

lemma Publish_outcomes:
  assumes "fromV1PublishRequest e rq = Inr event"
  shows "(\<forall>err. tunnel_Send e event = Some err \<longrightarrow>
            Publish e rq s w =
              (Inl (Connect CodeInternal err), s, w\<lparr>tunnel_out := tunnel_out w @ [event]\<rparr>) \<and>
            delivered w (snd (snd (Publish e rq s w))) = [] \<and>
            logged (snd (snd (Publish e rq s w))) = logged w) \<and>
         (tunnel_Send e event = None \<longrightarrow>
            Publish e rq s w =
              (Inr (), snd (dispatchEvent e event s (w\<lparr>tunnel_out := tunnel_out w @ [event]\<rparr>))) \<and>
            map fst (delivered w (snd (snd (Publish e rq s w)))) =
              filter (wants (toV1SubscribeResponse e event)) (topic_subs s (Destination event)) @
              filter (wants (toV1SubscribeResponse e event)) (sniffers s) \<and>
            (\<forall>x \<in> set (delivered w (snd (snd (Publish e rq s w)))).
               fst (snd x) = toV1SubscribeResponse e event))"
proof (cases "tunnel_Send e event")
  case (Some err)
  then show ?thesis using assms by (simp add: Publish_def Let_def)
next
  case None
  let ?w1 = "w\<lparr>tunnel_out := tunnel_out w @ [event]\<rparr>"
  obtain r s' w' where d: "dispatchEvent e event s ?w1 = (r, s', w')"
    by (cases "dispatchEvent e event s ?w1") auto
  have r: "r = None" "s' = s" using d by (rule dispatchEvent_result)+
  have p: "Publish e rq s w = (Inr (), s', w')"
    using assms None d r by (simp add: Publish_def Let_def)
  have m: "map fst (delivered w w') =
             filter (wants (toV1SubscribeResponse e event)) (topic_subs s (Destination event)) @
             filter (wants (toV1SubscribeResponse e event)) (sniffers s)"
    using dispatchEvent_map_fst[OF d] by simp
  have "delivered ?w1 w' = delivered w w'" by simp
  then have a: "\<forall>x \<in> set (delivered w w'). fst (snd x) = toV1SubscribeResponse e event"
    using dispatchEvent_delivered[OF d] set_outcomes by fastforce
  show ?thesis using None p d m a by simp
qed

section \<open>The unary call\<close>

lemma receive_loop_no_for:
  "receive_loop [] msgs acc = (case msgs of [] \<Rightarrow> acc | m # rest \<Rightarrow> acc @ [m])"
  by (cases msgs) (simp_all add: Let_def)

section \<open>The examples evaluated\<close>

lemma eval_parse_123 [simp]:
  "parseGroupAddresses example_env [''1/2/3''] = Inr [0x0A03]"
  "parseGroupAddresses example_env [''1/2/3'', ''1/2/3''] = Inr [0x0A03, 0x0A03]"
  "parseGroupAddresses example_env [] = Inr []"
  by (simp_all add: parseGroupAddresses_def example_env_def)

lemmas example_defs =
  example_env_def broken_tunnel_env_def example_server_def empty_world_def
  any_123_def read_123_def sniff_any_def write_123_def ask_123_def
  write_event_def read_event_def unknown_event_def
  GroupRead_def GroupResponse_def GroupWrite_def

lemmas dispatch_defs =
  dispatchEvent_def dispatchToSubscribers_def dispatchToSniffers_def
  toV1SubscribeResponse_def Let_def

lemma example_dispatch_write:
  "dispatchEvent example_env write_event example_server empty_world =
     (None, example_server,
      \<lparr>sent = [(\<lparr>req = any_123, stream = 1\<rparr>, toV1SubscribeResponse example_env write_event, None),
               (\<lparr>req = sniff_any, stream = 3\<rparr>, toV1SubscribeResponse example_env write_event, None)],
       logged = [], tunnel_out = []\<rparr>)"
  by (simp add: dispatch_defs example_defs)

lemma example_dispatch_read:
  "dispatchEvent example_env read_event example_server empty_world =
     (None, example_server,
      \<lparr>sent = [(\<lparr>req = any_123, stream = 1\<rparr>, toV1SubscribeResponse example_env read_event, None),
               (\<lparr>req = read_123, stream = 2\<rparr>, toV1SubscribeResponse example_env read_event,
                  Some (Plain ''broken pipe'')),
               (\<lparr>req = sniff_any, stream = 3\<rparr>, toV1SubscribeResponse example_env read_event, None)],
       logged = [\<lparr>log_err = Plain ''broken pipe'', log_peer = ''10.0.0.2'',
                  log_msg = ''unable to send response to subscriber''\<rparr>],
       tunnel_out = []\<rparr>)"
  by (simp add: dispatch_defs example_defs)

lemma example_dispatch_unknown:
  "dispatchEvent example_env unknown_event example_server empty_world =
     (None, example_server,
      \<lparr>sent = [(\<lparr>req = any_123, stream = 1\<rparr>, toV1SubscribeResponse example_env unknown_event, None),
               (\<lparr>req = sniff_any, stream = 3\<rparr>, toV1SubscribeResponse example_env unknown_event, None)],
       logged = [], tunnel_out = []\<rparr>)"
  by (simp add: dispatch_defs example_defs)

lemma sent_empty_world: "sent empty_world = []"
  by (simp add: empty_world_def)

lemma example_convert:
  "fromV1PublishRequest example_env write_123 = Inr write_event"
  "fromV1PublishRequest broken_tunnel_env write_123 = Inr write_event"
  "fromV1PublishRequest example_env ask_123 = Inr read_event"
  by (simp_all add: fromV1PublishRequest_def Let_def example_defs)

lemma example_kinds:
  "resp_Event (toV1SubscribeResponse example_env write_event) = EVENT_WRITE"
  "resp_Event (toV1SubscribeResponse example_env read_event) = EVENT_READ"
  "resp_Event (toV1SubscribeResponse example_env unknown_event) = EVENT_UNSPECIFIED"
  by (simp_all add: toV1SubscribeResponse_def Let_def example_defs)

lemma example_dispatch_published:
  "dispatchEvent example_env write_event publish_server
     (empty_world\<lparr>tunnel_out := tunnel_out empty_world @ [write_event]\<rparr>) =
     (None, publish_server,
      \<lparr>sent = [(\<lparr>req = any_123, stream = 1\<rparr>,
                \<lparr>resp_GroupAddress = ''1/2/3'', resp_PhysicalAddress = ''0.0.0'',
                 resp_Event = EVENT_WRITE, resp_Data = [1]\<rparr>, None),
               (\<lparr>req = only_write_123, stream = 4\<rparr>,
                \<lparr>resp_GroupAddress = ''1/2/3'', resp_PhysicalAddress = ''0.0.0'',
                 resp_Event = EVENT_WRITE, resp_Data = [1]\<rparr>, None),
               (\<lparr>req = sniff_any, stream = 3\<rparr>,
                \<lparr>resp_GroupAddress = ''1/2/3'', resp_PhysicalAddress = ''0.0.0'',
                 resp_Event = EVENT_WRITE, resp_Data = [1]\<rparr>, None)],
       logged = [], tunnel_out = [write_event]\<rparr>)"
  by (simp add: dispatch_defs example_defs publish_server_def only_write_123_def
        sniff_response_def)

section \<open>The claims\<close>

text \<open>
  C1. Every Subscribe call undoes its registration before it returns, also when the
  server's context ends and the call returns an Aborted error. The code does not: on a
  registry that is empty, a call for 1/2/3 on stream 7 that the shutdown ends returns
  Aborted and leaves stream 7 registered at 1/2/3, and a sniffer call on stream 8 that the
  shutdown ends stays in the sniffers; the same calls ended by their own context return
  nil and leave nothing behind.
\<close>

theorem shutdown_leaves_subscriber_registered:
  "fst (Subscribe example_env any_123 7 (ServerDone Canceled) New) =
     Some (Connect CodeAborted Canceled) \<and>
   occurrences (snd (Subscribe example_env any_123 7 (ServerDone Canceled) New)) 0x0A03 7 = 1 \<and>
   fst (Subscribe example_env sniff_any 8 (ServerDone Canceled) New) =
     Some (Connect CodeAborted Canceled) \<and>
   occ_in 8 (sniffers (snd (Subscribe example_env sniff_any 8 (ServerDone Canceled) New))) = 1 \<and>
   fst (Subscribe example_env any_123 7 CallDone New) = None \<and>
   occurrences (snd (Subscribe example_env any_123 7 CallDone New)) 0x0A03 7 = 0 \<and>
   fst (Subscribe example_env sniff_any 8 CallDone New) = None \<and>
   occ_in 8 (sniffers (snd (Subscribe example_env sniff_any 8 CallDone New))) = 0"
  by (simp add: Subscribe_def Subscribe_register_def Subscribe_finish_def any_123_def sniff_any_def
        New_def occurrences_def occ_in_def unregister_at_def registerSniffer_def
        unregisterSniffer_def Let_def)

text \<open>
  C2. When the stream of a SubscribeUnary call ends for a reason other than cancellation or
  a deadline, the call returns an Internal error. The code does not: the error it inspects
  after the loop is the nil error of client.Subscribe, so a stream that ends with an
  Unavailable error gives a successful response.
\<close>

theorem stream_failure_returned_as_success:
  "SubscribeUnary example_env \<lparr>unary_SubscribeRequest = any_123, For = ''500ms''\<rparr>
     (\<lparr>stream_Msgs = [], stream_Err = Some (Connect CodeUnavailable (Plain ''connection reset''))\<rparr>,
      None) = Inr \<lparr>Messages = []\<rparr>"
  by (simp add: SubscribeUnary_def NewClient_def example_env_def)

text \<open>
  C3, as amended. After the registration steps of any list of Subscribe calls on pairwise
  distinct streams, starting from the empty registry, the stream of each call whose
  addresses parse occurs in the slice of every address as often as the parsed list names
  that address (once when named once, not at all when not named), and occurs in the
  sniffers exactly once when the request lists no address and not at all otherwise.
\<close>

theorem registered_as_often_as_listed:
  assumes "distinct (map snd calls)" and "(rq, st) \<in> set calls"
      and "parseGroupAddresses e (req_GroupAddresses rq) = Inr addresses"
  shows "(\<forall>t. occurrences (registrations e calls New) t st = count_list addresses t) \<and>
         occ_in st (sniffers (registrations e calls New)) =
           (if req_GroupAddresses rq = [] then 1 else 0)"
proof -
  have "sniffers New = []" by (simp add: New_def)
  then show ?thesis
    using registrations_count[OF assms, of New] parseGroupAddresses_Nil_iff[OF assms(3)]
    by (simp add: occurrences_New occ_in_def)
qed

theorem registered_as_often_as_listed_witness:
  "distinct (map snd [(any_123, 1::nat), (sniff_any, 3)]) \<and>
   (any_123, 1::nat) \<in> set [(any_123, 1), (sniff_any, 3)] \<and>
   parseGroupAddresses example_env (req_GroupAddresses any_123) = Inr [0x0A03] \<and>
   occurrences (registrations example_env [(any_123, 1), (sniff_any, 3)] New) 0x0A03 1 = 1 \<and>
   occurrences (registrations example_env [(any_123, 1), (sniff_any, 3)] New) 0x2506 1 = 0 \<and>
   occ_in 1 (sniffers (registrations example_env [(any_123, 1), (sniff_any, 3)] New)) = 0"
proof -
  have h1: "distinct (map snd [(any_123, 1::nat), (sniff_any, 3)])" by simp
  have h2: "(any_123, 1::nat) \<in> set [(any_123, 1), (sniff_any, 3)]" by simp
  have h3: "parseGroupAddresses example_env (req_GroupAddresses any_123) = Inr [0x0A03]"
    by (simp add: any_123_def)
  have h4: "req_GroupAddresses any_123 \<noteq> []" by (simp add: any_123_def)
  note r = registered_as_often_as_listed [OF h1 h2 h3]
  from r have c1: "occurrences (registrations example_env [(any_123, 1), (sniff_any, 3)] New) 0x0A03 1 = 1"
    by simp
  from r have c2: "occurrences (registrations example_env [(any_123, 1), (sniff_any, 3)] New) 0x2506 1 = 0"
    by simp
  from r h4 have c3: "occ_in 1 (sniffers (registrations example_env [(any_123, 1), (sniff_any, 3)] New)) = 0"
    by simp
  show ?thesis by (intro conjI h1 h2 h3 c1 c2 c3)
qed

text \<open>
  C3 as stated asks for exactly one occurrence at each listed address also when the list
  repeats an address. A request that lists 1/2/3 twice puts its stream into the slice of
  1/2/3 twice.
\<close>

theorem duplicate_topic_registered_twice:
  "occurrences (registrations example_env [(twice_123, 7)] New) 0x0A03 7 = 2"
  by (simp add: Subscribe_register_def twice_123_def New_def occurrences_def occ_in_def Let_def)

text \<open>
  C4. Registering a stream that no other operation names for the addresses T gives a state
  in which the stream occurs at every address as often as T lists it, whatever the other
  calls did before and do after. From every state that the registry operations reach and
  in which the stream is registered for exactly T, unregistering it for T leaves no empty
  slice in the map and no occurrence of the stream.
\<close>

theorem register_then_unregister_clean:
  "((\<forall>op \<in> set before. op_stream op \<noteq> st) \<and> (\<forall>op \<in> set between. op_stream op \<noteq> st) \<longrightarrow>
      (\<forall>t. occurrences (run (before @ Register T rq st # between) New) t st = count_list T t)) \<and>
   ((\<forall>t. occurrences (run ops New) t st = count_list T t) \<longrightarrow>
      no_empty (unregisterSubscriber T st (run ops New)) \<and>
      (\<forall>t. occurrences (unregisterSubscriber T st (run ops New)) t st = 0))"
proof -
  have "no_empty (run ops New)" by (intro no_empty_run no_empty_New)
  then have "no_empty (unregisterSubscriber T st (run ops New))"
    by (rule no_empty_unregisterSubscriber)
  then show ?thesis
    using registered_exactly_after_register[of before st between T rq]
    by (simp add: occurrences_unregisterSubscriber)
qed

theorem register_then_unregister_clean_witness:
  "op_stream (Register [0x2506] any_123 1) \<noteq> 5 \<and>
   op_stream (Register [0x0A03] read_123 2) \<noteq> 5 \<and>
   op_stream (UnregisterSniffer 3) \<noteq> 5 \<and>
   (\<forall>t. occurrences
      (run ([Register [0x2506] any_123 1] @ Register [0x0A03, 0x2506] any_123 5 #
            [Register [0x0A03] read_123 2, UnregisterSniffer 3]) New) t 5 =
      count_list [0x0A03, 0x2506] t) \<and>
   no_empty (unregisterSubscriber [0x0A03, 0x2506] 5
      (run ([Register [0x2506] any_123 1] @ Register [0x0A03, 0x2506] any_123 5 #
            [Register [0x0A03] read_123 2, UnregisterSniffer 3]) New)) \<and>
   occurrences (unregisterSubscriber [0x0A03, 0x2506] 5
      (run ([Register [0x2506] any_123 1] @ Register [0x0A03, 0x2506] any_123 5 #
            [Register [0x0A03] read_123 2, UnregisterSniffer 3]) New)) 0x0A03 5 = 0 \<and>
   occurrences (unregisterSubscriber [0x0A03, 0x2506] 5
      (run ([Register [0x2506] any_123 1] @ Register [0x0A03, 0x2506] any_123 5 #
            [Register [0x0A03] read_123 2, UnregisterSniffer 3]) New)) 0x2506 1 = 1"
proof -
  let ?before = "[Register [0x2506] any_123 1]"
  let ?between = "[Register [0x0A03] read_123 2, UnregisterSniffer 3]"
  let ?ops = "?before @ Register [0x0A03, 0x2506] any_123 5 # ?between"
  note t = register_then_unregister_clean
    [of ?before 5 ?between "[0x0A03, 0x2506]" any_123 ?ops]
  have h1: "op_stream (Register [0x2506] any_123 1) \<noteq> 5" by simp
  have h2: "op_stream (Register [0x0A03] read_123 2) \<noteq> 5" by simp
  have h3: "op_stream (UnregisterSniffer 3) \<noteq> 5" by simp
  from t h1 h2 h3
  have c1: "\<forall>t. occurrences (run ?ops New) t 5 = count_list [0x0A03, 0x2506] t"
    by simp
  with t have c2: "no_empty (unregisterSubscriber [0x0A03, 0x2506] 5 (run ?ops New))"
    and c3: "occurrences (unregisterSubscriber [0x0A03, 0x2506] 5 (run ?ops New)) 0x0A03 5 = 0"
    by blast+
  have c4: "occurrences (unregisterSubscriber [0x0A03, 0x2506] 5 (run ?ops New)) 0x2506 1 = 1"
    by (simp add: New_def occurrences_def occ_in_def unregister_at_def unregisterSniffer_def
          swap_remove_def Let_def)
  show ?thesis by (intro conjI h1 h2 h3 c1 c2 c3 c4)
qed

text \<open>
  C5. In one dispatch every Send carries the response of the dispatched event, to an entry
  that asked for every kind or for the kind of the event; a subscriber that asked for reads
  is sent neither a write nor a response; a subscriber of the event's
  address that asked for every kind is sent the event; a sniffer is sent the event, whatever
  its address, when its kind filter passes.
\<close>

theorem dispatch_respects_kind_filter:
  assumes "dispatchEvent e event s w = (r, s', w')"
  shows "(\<forall>(sub, resp, out) \<in> set (delivered w w').
            resp = toV1SubscribeResponse e event \<and>
            (req_Event (req sub) = EVENT_UNSPECIFIED \<or> req_Event (req sub) = resp_Event resp) \<and>
            (req_Event (req sub) = EVENT_READ \<longrightarrow>
               resp_Event resp \<noteq> EVENT_WRITE \<and> resp_Event resp \<noteq> EVENT_RESPONSE)) \<and>
         (\<forall>sub \<in> set (topic_subs s (Destination event)).
            req_Event (req sub) = EVENT_UNSPECIFIED \<longrightarrow>
            (\<exists>out. (sub, toV1SubscribeResponse e event, out) \<in> set (delivered w w'))) \<and>
         (\<forall>sub \<in> set (sniffers s).
            (req_Event (req sub) = EVENT_UNSPECIFIED \<or>
             req_Event (req sub) = resp_Event (toV1SubscribeResponse e event)) \<longrightarrow>
            (\<exists>out. (sub, toV1SubscribeResponse e event, out) \<in> set (delivered w w')))"
proof -
  let ?resp = "toV1SubscribeResponse e event"
  let ?A = "filter (wants ?resp) (topic_subs s (Destination event))"
  let ?B = "filter (wants ?resp) (sniffers s)"
  have d: "delivered w w' = outcomes e (length (sent w)) ?resp ?A @
                            outcomes e (length (sent w) + length ?A) ?resp ?B"
    using assms by (rule dispatchEvent_delivered)
  have one: "resp = ?resp \<and>
             (req_Event (req sub) = EVENT_UNSPECIFIED \<or> req_Event (req sub) = resp_Event resp) \<and>
             (req_Event (req sub) = EVENT_READ \<longrightarrow>
                resp_Event resp \<noteq> EVENT_WRITE \<and> resp_Event resp \<noteq> EVENT_RESPONSE)"
    if "(sub, resp, out) \<in> set (delivered w w')" for sub resp out
  proof -
    from that have "(sub \<in> set ?A \<or> sub \<in> set ?B) \<and> resp = ?resp"
      unfolding d using set_outcomes by fastforce
    then show ?thesis by (auto simp: wants_def)
  qed
  have two: "\<exists>out. (sub, ?resp, out) \<in> set (delivered w w')"
    if "sub \<in> set (topic_subs s (Destination event))" "req_Event (req sub) = EVENT_UNSPECIFIED" for sub
  proof -
    from that have "sub \<in> set ?A" by (simp add: wants_def)
    then show ?thesis unfolding d using outcomes_covers by fastforce
  qed
  have three: "\<exists>out. (sub, ?resp, out) \<in> set (delivered w w')"
    if "sub \<in> set (sniffers s)"
       "req_Event (req sub) = EVENT_UNSPECIFIED \<or> req_Event (req sub) = resp_Event ?resp" for sub
  proof -
    from that have "sub \<in> set ?B" by (simp add: wants_def)
    then show ?thesis unfolding d using outcomes_covers by fastforce
  qed
  show ?thesis using one two three by blast
qed

theorem dispatch_respects_kind_filter_witness:
  "fst (dispatchEvent example_env
          \<lparr>Command = GroupWrite, Source = 0, Destination = 0x0A03, Data = [1]\<rparr>
          example_server empty_world) = None \<and>
   map (\<lambda>(sub, resp, out). (stream sub, req_Event (req sub), resp_Event resp))
     (delivered empty_world
        (snd (snd (dispatchEvent example_env
          \<lparr>Command = GroupWrite, Source = 0, Destination = 0x0A03, Data = [1]\<rparr>
          example_server empty_world)))) =
     [(1, EVENT_UNSPECIFIED, EVENT_WRITE), (3, EVENT_UNSPECIFIED, EVENT_WRITE)]"
proof -
  let ?ev = "\<lparr>Command = GroupWrite, Source = 0, Destination = 0x0A03, Data = [1]\<rparr>"
  obtain w' where d: "dispatchEvent example_env ?ev example_server empty_world = (None, example_server, w')"
    by (simp add: dispatchEvent_world)
  have m: "map (\<lambda>(sub, resp, out). (stream sub, req_Event (req sub), resp_Event resp))
             (delivered empty_world w') =
           [(1, EVENT_UNSPECIFIED, EVENT_WRITE), (3, EVENT_UNSPECIFIED, EVENT_WRITE)]"
    using d
    by (auto simp: dispatchEvent_world fanout_world delivered_def empty_world_def example_server_def
          topic_subs_def wants_def toV1_Event GroupRead_def GroupWrite_def GroupResponse_def
          any_123_def read_123_def sniff_any_def)
  show ?thesis using d m dispatch_respects_kind_filter [OF d] by simp
qed

text \<open>
  C6. A SubscribeUnary call without a duration returns the first message of its stream and
  no other, or no message when the stream ends before one arrives; when the stream cannot
  be opened it returns the error.
\<close>

theorem unary_without_for_returns_first:
  assumes "For rq = []"
  shows "SubscribeUnary e rq (strm, None) = Inr \<lparr>Messages = take 1 (stream_Msgs strm)\<rparr> \<and>
         length (take 1 (stream_Msgs strm)) \<le> 1 \<and>
         SubscribeUnary e rq (strm, Some err) = Inl err"
  using assms
  by (cases "stream_Msgs strm") (simp_all add: SubscribeUnary_def NewClient_def Let_def)

theorem unary_without_for_returns_first_witness:
  "For \<lparr>unary_SubscribeRequest = sniff_any, For = []\<rparr> = [] \<and>
   SubscribeUnary example_env \<lparr>unary_SubscribeRequest = sniff_any, For = []\<rparr>
     (\<lparr>stream_Msgs = [toV1SubscribeResponse example_env \<lparr>Command = GroupWrite, Source = 0, Destination = 0x0A03, Data = [1]\<rparr>,
                      toV1SubscribeResponse example_env \<lparr>Command = GroupRead, Source = 0, Destination = 0x2506, Data = []\<rparr>],
       stream_Err = None\<rparr>, None) =
     Inr \<lparr>Messages = [toV1SubscribeResponse example_env \<lparr>Command = GroupWrite, Source = 0, Destination = 0x0A03, Data = [1]\<rparr>]\<rparr> \<and>
   SubscribeUnary example_env \<lparr>unary_SubscribeRequest = sniff_any, For = []\<rparr>
     (\<lparr>stream_Msgs = [], stream_Err = Some (Connect CodeCanceled Canceled)\<rparr>, None) =
     Inr \<lparr>Messages = []\<rparr>"
proof -
  have h: "For \<lparr>unary_SubscribeRequest = sniff_any, For = []\<rparr> = []" by simp
  show ?thesis
    using h unary_without_for_returns_first [OF h, of example_env
        "\<lparr>stream_Msgs = [toV1SubscribeResponse example_env \<lparr>Command = GroupWrite, Source = 0, Destination = 0x0A03, Data = [1]\<rparr>,
                      toV1SubscribeResponse example_env \<lparr>Command = GroupRead, Source = 0, Destination = 0x2506, Data = []\<rparr>],
       stream_Err = None\<rparr>"]
      unary_without_for_returns_first [OF h, of example_env
        "\<lparr>stream_Msgs = [], stream_Err = Some (Connect CodeCanceled Canceled)\<rparr>"]
    by simp
qed

text \<open>
  C7. A Publish request that converts to an event gives an event with the parsed address
  of the request, its data and, when it names one, its parsed origin. When the tunnel
  refuses the event, the call returns an Internal error with that cause and no Send and no
  log line is added. When the tunnel accepts it, the call returns what one dispatch of the
  same event leaves: each entry at the published address, and each sniffer, that asked for
  every kind or for the published kind (Write when the request names none) is sent once,
  in order, and what each is sent is the published address, origin, kind and data.
\<close>

theorem publish_sends_then_dispatches_once:
  assumes "fromV1PublishRequest e rq = Inr event"
  shows "NewGroupAddrString e (pub_GroupAddress rq) = Inr (Destination event) \<and>
         Data event = pub_Data rq \<and>
         (if pub_PhysicalAddress rq = [] then Source event = 0
          else NewIndividualAddrString e (pub_PhysicalAddress rq) = Inr (Source event)) \<and>
         (\<forall>err. tunnel_Send e event = Some err \<longrightarrow>
            Publish e rq s w =
              (Inl (Connect CodeInternal err), s, w\<lparr>tunnel_out := tunnel_out w @ [event]\<rparr>) \<and>
            delivered w (snd (snd (Publish e rq s w))) = [] \<and>
            logged (snd (snd (Publish e rq s w))) = logged w) \<and>
         (tunnel_Send e event = None \<longrightarrow>
            Publish e rq s w =
              (Inr (), snd (dispatchEvent e event s (w\<lparr>tunnel_out := tunnel_out w @ [event]\<rparr>))) \<and>
            map fst (delivered w (snd (snd (Publish e rq s w)))) =
              filter (wants (toV1SubscribeResponse e event)) (topic_subs s (Destination event)) @
              filter (wants (toV1SubscribeResponse e event)) (sniffers s) \<and>
            (\<forall>x \<in> set (delivered w (snd (snd (Publish e rq s w)))).
               fst (snd x) = toV1SubscribeResponse e event) \<and>
            map fst (delivered w (snd (snd (Publish e rq s w)))) =
              filter (\<lambda>sub. req_Event (req sub) = EVENT_UNSPECIFIED \<or>
                            req_Event (req sub) =
                              (if pub_Event rq = EVENT_UNSPECIFIED then EVENT_WRITE
                               else pub_Event rq))
                (topic_subs s (Destination event)) @
              filter (\<lambda>sub. req_Event (req sub) = EVENT_UNSPECIFIED \<or>
                            req_Event (req sub) =
                              (if pub_Event rq = EVENT_UNSPECIFIED then EVENT_WRITE
                               else pub_Event rq))
                (sniffers s) \<and>
            (\<forall>x \<in> set (delivered w (snd (snd (Publish e rq s w)))).
               fst (snd x) =
                 \<lparr>resp_GroupAddress = GroupAddr_String e (Destination event),
                  resp_PhysicalAddress = IndividualAddr_String e (Source event),
                  resp_Event = (if pub_Event rq = EVENT_UNSPECIFIED then EVENT_WRITE
                                else pub_Event rq),
                  resp_Data = pub_Data rq\<rparr>))"
proof -
  note f = fromV1_fields[OF assms]
  note o = Publish_outcomes[OF assms, of s w]
  have fail: "\<forall>err. tunnel_Send e event = Some err \<longrightarrow>
            Publish e rq s w =
              (Inl (Connect CodeInternal err), s, w\<lparr>tunnel_out := tunnel_out w @ [event]\<rparr>) \<and>
            delivered w (snd (snd (Publish e rq s w))) = [] \<and>
            logged (snd (snd (Publish e rq s w))) = logged w"
    using o by blast
  have ok: "Publish e rq s w =
              (Inr (), snd (dispatchEvent e event s (w\<lparr>tunnel_out := tunnel_out w @ [event]\<rparr>))) \<and>
            map fst (delivered w (snd (snd (Publish e rq s w)))) =
              filter (wants (toV1SubscribeResponse e event)) (topic_subs s (Destination event)) @
              filter (wants (toV1SubscribeResponse e event)) (sniffers s) \<and>
            (\<forall>x \<in> set (delivered w (snd (snd (Publish e rq s w)))).
               fst (snd x) = toV1SubscribeResponse e event)"
    if "tunnel_Send e event = None"
    using o that by blast
  show ?thesis
  proof (intro conjI f fail impI)
    assume n: "tunnel_Send e event = None"
    note k = ok[OF n]
    show "Publish e rq s w =
            (Inr (), snd (dispatchEvent e event s (w\<lparr>tunnel_out := tunnel_out w @ [event]\<rparr>)))"
      using k by blast
    show m: "map fst (delivered w (snd (snd (Publish e rq s w)))) =
            filter (wants (toV1SubscribeResponse e event)) (topic_subs s (Destination event)) @
            filter (wants (toV1SubscribeResponse e event)) (sniffers s)"
      using k by blast
    show a: "\<forall>x \<in> set (delivered w (snd (snd (Publish e rq s w)))).
               fst (snd x) = toV1SubscribeResponse e event"
      using k by blast
    show "map fst (delivered w (snd (snd (Publish e rq s w)))) =
            filter (\<lambda>sub. req_Event (req sub) = EVENT_UNSPECIFIED \<or>
                          req_Event (req sub) =
                            (if pub_Event rq = EVENT_UNSPECIFIED then EVENT_WRITE
                             else pub_Event rq))
              (topic_subs s (Destination event)) @
            filter (\<lambda>sub. req_Event (req sub) = EVENT_UNSPECIFIED \<or>
                          req_Event (req sub) =
                            (if pub_Event rq = EVENT_UNSPECIFIED then EVENT_WRITE
                             else pub_Event rq))
              (sniffers s)"
      using m unfolding wants_published[OF assms] .
    show "\<forall>x \<in> set (delivered w (snd (snd (Publish e rq s w)))).
               fst (snd x) =
                 \<lparr>resp_GroupAddress = GroupAddr_String e (Destination event),
                  resp_PhysicalAddress = IndividualAddr_String e (Source event),
                  resp_Event = (if pub_Event rq = EVENT_UNSPECIFIED then EVENT_WRITE
                                else pub_Event rq),
                  resp_Data = pub_Data rq\<rparr>"
      using a unfolding toV1_published[OF assms] .
  qed
qed

theorem publish_sends_then_dispatches_once_witness:
  "fromV1PublishRequest example_env write_123 = Inr write_event \<and>
   tunnel_Send example_env write_event = None \<and>
   fst (Publish example_env write_123 publish_server empty_world) = Inr () \<and>
   delivered empty_world (snd (snd (Publish example_env write_123 publish_server empty_world))) =
     [(\<lparr>req = any_123, stream = 1\<rparr>,
       \<lparr>resp_GroupAddress = ''1/2/3'', resp_PhysicalAddress = ''0.0.0'',
        resp_Event = EVENT_WRITE, resp_Data = [1]\<rparr>, None),
      (\<lparr>req = only_write_123, stream = 4\<rparr>,
       \<lparr>resp_GroupAddress = ''1/2/3'', resp_PhysicalAddress = ''0.0.0'',
        resp_Event = EVENT_WRITE, resp_Data = [1]\<rparr>, None),
      (\<lparr>req = sniff_any, stream = 3\<rparr>,
       \<lparr>resp_GroupAddress = ''1/2/3'', resp_PhysicalAddress = ''0.0.0'',
        resp_Event = EVENT_WRITE, resp_Data = [1]\<rparr>, None)] \<and>
   fromV1PublishRequest broken_tunnel_env write_123 = Inr write_event \<and>
   tunnel_Send broken_tunnel_env write_event = Some (Plain ''tunnel closed'') \<and>
   fst (Publish broken_tunnel_env write_123 publish_server empty_world) =
     Inl (Connect CodeInternal (Plain ''tunnel closed'')) \<and>
   delivered empty_world (snd (snd (Publish broken_tunnel_env write_123 publish_server empty_world))) = []"
proof -
  have h1: "fromV1PublishRequest example_env write_123 = Inr write_event"
    by (rule example_convert)
  have h2: "tunnel_Send example_env write_event = None" by (simp add: example_env_def)
  have h3: "fromV1PublishRequest broken_tunnel_env write_123 = Inr write_event"
    by (rule example_convert)
  have h4: "tunnel_Send broken_tunnel_env write_event = Some (Plain ''tunnel closed'')"
    by (simp add: broken_tunnel_env_def)
  note ok = publish_sends_then_dispatches_once [OF h1, of publish_server empty_world]
  note bad = publish_sends_then_dispatches_once [OF h3, of publish_server empty_world]
  from ok h2 have p: "Publish example_env write_123 publish_server empty_world =
      (Inr (), snd (dispatchEvent example_env write_event publish_server
                      (empty_world\<lparr>tunnel_out := tunnel_out empty_world @ [write_event]\<rparr>)))"
    by blast
  have c1: "fst (Publish example_env write_123 publish_server empty_world) = Inr ()"
    unfolding p by simp
  have c2: "delivered empty_world
        (snd (snd (Publish example_env write_123 publish_server empty_world))) =
     [(\<lparr>req = any_123, stream = 1\<rparr>,
       \<lparr>resp_GroupAddress = ''1/2/3'', resp_PhysicalAddress = ''0.0.0'',
        resp_Event = EVENT_WRITE, resp_Data = [1]\<rparr>, None),
      (\<lparr>req = only_write_123, stream = 4\<rparr>,
       \<lparr>resp_GroupAddress = ''1/2/3'', resp_PhysicalAddress = ''0.0.0'',
        resp_Event = EVENT_WRITE, resp_Data = [1]\<rparr>, None),
      (\<lparr>req = sniff_any, stream = 3\<rparr>,
       \<lparr>resp_GroupAddress = ''1/2/3'', resp_PhysicalAddress = ''0.0.0'',
        resp_Event = EVENT_WRITE, resp_Data = [1]\<rparr>, None)]"
    unfolding p example_dispatch_published by (simp add: delivered_def sent_empty_world)
  from bad h4 have c3: "fst (Publish broken_tunnel_env write_123 publish_server empty_world) =
     Inl (Connect CodeInternal (Plain ''tunnel closed''))"
    by simp
  from bad h4 have c4: "delivered empty_world
      (snd (snd (Publish broken_tunnel_env write_123 publish_server empty_world))) = []"
    by blast
  show ?thesis by (intro conjI h1 h2 c1 c2 h3 h4 c3 c4)
qed

text \<open>
  C8. A dispatch sends to every matching entry once and in order, whatever the outcome of
  each Send; the outcome of the i-th is what the stream returned to that one call; every
  failed Send has a log line with its error and the peer of its stream, and there are as
  many new log lines as failed Sends; the registry is returned as it was; the dispatch
  returns nil, so neither a Publish of this event nor the reader loop that takes it fails.
\<close>

theorem failed_send_is_logged_and_skipped:
  assumes "dispatchEvent e event s w = (r, s', w')"
  shows "r = None \<and> s' = s \<and>
     map fst (delivered w w') =
       filter (wants (toV1SubscribeResponse e event)) (topic_subs s (Destination event)) @
       filter (wants (toV1SubscribeResponse e event)) (sniffers s) \<and>
     (\<forall>i < length (delivered w w').
        snd (snd (delivered w w' ! i)) =
          stream_Send e (length (sent w) + i) (stream (fst (delivered w w' ! i)))
            (toV1SubscribeResponse e event)) \<and>
     (\<forall>sub resp err. (sub, resp, Some err) \<in> set (delivered w w') \<longrightarrow>
        (\<exists>l \<in> set (drop (length (logged w)) (logged w')).
           log_err l = err \<and> log_peer l = Peer_Addr e (stream sub))) \<and>
     length (drop (length (logged w)) (logged w')) =
       length (filter (\<lambda>x. snd (snd x) \<noteq> None) (delivered w w')) \<and>
     (\<forall>rq. fromV1PublishRequest e rq = Inr event \<and> tunnel_Send e event = None \<longrightarrow>
        fst (Publish e rq s w) = Inr ()) \<and>
     (\<forall>cases r2 s2 w2. busMessageReader e (Inbound event # cases) s w = (Returned r2, s2, w2) \<longrightarrow>
        r2 = None)"
proof -
  let ?resp = "toV1SubscribeResponse e event"
  let ?T = "filter (wants ?resp) (topic_subs s (Destination event)) @
            filter (wants ?resp) (sniffers s)"
  have d: "delivered w w' = outcomes e (length (sent w)) ?resp ?T"
    using assms by (rule dispatchEvent_delivered_all)
  have c1: "r = None" "s' = s" using assms by (rule dispatchEvent_result)+
  have c2: "map fst (delivered w w') = ?T" unfolding d by (rule map_fst_outcomes)
  have c3: "snd (snd (delivered w w' ! i)) =
          stream_Send e (length (sent w) + i) (stream (fst (delivered w w' ! i))) ?resp"
    if "i < length (delivered w w')" for i
    using that unfolding d by (simp add: length_outcomes nth_outcomes)
  obtain outs1 outs2 where o: "delivered w w' = outs1 @ outs2"
      "drop (length (logged w)) (logged w') =
         log_lines e ''unable to send response to subscriber'' outs1 @
         log_lines e ''unable to send response to sniffer'' outs2"
    using dispatchEvent_new_logged[OF assms] by blast
  have c4: "\<exists>l \<in> set (drop (length (logged w)) (logged w')).
           log_err l = err \<and> log_peer l = Peer_Addr e (stream sub)"
    if "(sub, resp, Some err) \<in> set (delivered w w')" for sub resp err
  proof -
    from that o(1) consider "(sub, resp, Some err) \<in> set outs1" | "(sub, resp, Some err) \<in> set outs2"
      by auto
    then show ?thesis
    proof cases
      case 1
      from log_lines_has_failure[OF 1, of e "''unable to send response to subscriber''"]
      show ?thesis unfolding o(2) by force
    next
      case 2
      from log_lines_has_failure[OF 2, of e "''unable to send response to sniffer''"]
      show ?thesis unfolding o(2) by force
    qed
  qed
  have c5: "length (drop (length (logged w)) (logged w')) =
       length (filter (\<lambda>x. snd (snd x) \<noteq> None) (delivered w w'))"
    unfolding o by (simp add: length_log_lines)
  have c6: "fst (Publish e rq s w) = Inr ()"
    if "fromV1PublishRequest e rq = Inr event \<and> tunnel_Send e event = None" for rq
    using that Publish_not_failed_by_dispatch by blast
  have c7: "r2 = None"
    if "busMessageReader e (Inbound event # cases) s w = (Returned r2, s2, w2)" for cases r2 s2 w2
    using busMessageReader_returns[OF that] by simp
  show ?thesis using c1 c2 c3 c4 c5 c6 c7 by blast
qed

theorem failed_send_is_logged_and_skipped_witness:
  "dispatchEvent example_env read_event example_server empty_world =
     (None, example_server,
      snd (snd (dispatchEvent example_env read_event example_server empty_world))) \<and>
   map (\<lambda>(sub, resp, out). (stream sub, out))
     (delivered empty_world
        (snd (snd (dispatchEvent example_env read_event example_server empty_world)))) =
     [(1, None), (2, Some (Plain ''broken pipe'')), (3, None)] \<and>
   logged (snd (snd (dispatchEvent example_env read_event example_server empty_world))) =
     [\<lparr>log_err = Plain ''broken pipe'', log_peer = ''10.0.0.2'',
       log_msg = ''unable to send response to subscriber''\<rparr>] \<and>
   fromV1PublishRequest example_env ask_123 = Inr read_event \<and>
   tunnel_Send example_env read_event = None \<and>
   fst (Publish example_env ask_123 example_server empty_world) = Inr () \<and>
   fst (busMessageReader example_env [Inbound read_event, CtxDone] example_server empty_world) =
     Returned None"
proof -
  let ?w' = "snd (snd (dispatchEvent example_env read_event example_server empty_world))"
  have h1: "dispatchEvent example_env read_event example_server empty_world =
              (None, example_server, ?w')"
    by (simp add: example_dispatch_read)
  have c2: "map (\<lambda>(sub, resp, out). (stream sub, out)) (delivered empty_world ?w') =
              [(1, None), (2, Some (Plain ''broken pipe'')), (3, None)]"
    by (simp add: example_dispatch_read delivered_def sent_empty_world)
  have c3: "logged ?w' =
     [\<lparr>log_err = Plain ''broken pipe'', log_peer = ''10.0.0.2'',
       log_msg = ''unable to send response to subscriber''\<rparr>]"
    by (simp add: example_dispatch_read)
  have h4: "fromV1PublishRequest example_env ask_123 = Inr read_event"
    by (rule example_convert)
  have h5: "tunnel_Send example_env read_event = None" by (simp add: example_env_def)
  note t = failed_send_is_logged_and_skipped [OF h1]
  from t h4 h5 have c6: "fst (Publish example_env ask_123 example_server empty_world) = Inr ()"
    by blast
  have r: "busMessageReader example_env [Inbound read_event, CtxDone] example_server empty_world =
             (Returned None, example_server, ?w')"
    by (simp add: example_dispatch_read)
  with t have c7: "fst (busMessageReader example_env [Inbound read_event, CtxDone]
                      example_server empty_world) = Returned None"
    by simp
  show ?thesis by (intro conjI h1 c2 c3 h4 h5 c6 c7)
qed

text \<open>
  C9, as amended. A response delivered in a dispatch has the kind Unspecified exactly when
  the command of the bus event is none of GroupRead, GroupResponse and GroupWrite; for these
  three it has the kind Read, Response and Write. Every event that a Publish request
  converts to has one of the three commands.
\<close>

theorem delivered_kind_of_command:
  assumes "dispatchEvent e event s w = (r, s', w')"
      and "(sub, resp, out) \<in> set (delivered w w')"
  shows "(resp_Event resp = EVENT_UNSPECIFIED) =
           (Command event \<notin> {GroupRead, GroupResponse, GroupWrite}) \<and>
         (Command event = GroupRead \<longrightarrow> resp_Event resp = EVENT_READ) \<and>
         (Command event = GroupResponse \<longrightarrow> resp_Event resp = EVENT_RESPONSE) \<and>
         (Command event = GroupWrite \<longrightarrow> resp_Event resp = EVENT_WRITE) \<and>
         (\<forall>rq ev. fromV1PublishRequest e rq = Inr ev \<longrightarrow>
            Command ev \<in> {GroupRead, GroupResponse, GroupWrite})"
proof -
  have "resp = toV1SubscribeResponse e event"
    using assms(2) set_outcomes unfolding dispatchEvent_delivered_all[OF assms(1)] by fast
  then show ?thesis using fromV1_Command
    by (simp add: toV1_Event GroupRead_def GroupResponse_def GroupWrite_def)
qed

theorem delivered_kind_of_command_witness:
  "dispatchEvent example_env write_event example_server empty_world =
     (None, example_server, snd (snd (dispatchEvent example_env write_event example_server empty_world))) \<and>
   (\<lparr>req = any_123, stream = 1\<rparr>, toV1SubscribeResponse example_env write_event, None) \<in>
     set (delivered empty_world
            (snd (snd (dispatchEvent example_env write_event example_server empty_world)))) \<and>
   Command write_event = GroupWrite \<and>
   resp_Event (toV1SubscribeResponse example_env write_event) = EVENT_WRITE \<and>
   resp_Event (toV1SubscribeResponse example_env write_event) \<noteq> EVENT_UNSPECIFIED"
proof -
  let ?w' = "snd (snd (dispatchEvent example_env write_event example_server empty_world))"
  have h1: "dispatchEvent example_env write_event example_server empty_world =
              (None, example_server, ?w')"
    by (simp add: example_dispatch_write)
  have h2: "(\<lparr>req = any_123, stream = 1\<rparr>, toV1SubscribeResponse example_env write_event, None) \<in>
              set (delivered empty_world ?w')"
    by (simp add: example_dispatch_write delivered_def sent_empty_world)
  have h3: "Command write_event = GroupWrite" by (simp add: write_event_def)
  from delivered_kind_of_command [OF h1 h2] h3
  have c: "resp_Event (toV1SubscribeResponse example_env write_event) = EVENT_WRITE" by blast
  then have c': "resp_Event (toV1SubscribeResponse example_env write_event) \<noteq> EVENT_UNSPECIFIED"
    by simp
  show ?thesis by (intro conjI h1 h2 h3 c c')
qed

text \<open>
  C9 as stated holds for no command outside the three: an event with the command 0xFF is
  delivered, with the kind Unspecified, to the subscriber and the sniffer that asked for
  every kind.
\<close>

theorem unknown_command_delivered_unspecified:
  "map (\<lambda>(sub, resp, out). (stream sub, resp_Event resp))
     (delivered empty_world
        (snd (snd (dispatchEvent example_env unknown_event example_server empty_world)))) =
   [(1, EVENT_UNSPECIFIED), (3, EVENT_UNSPECIFIED)]"
  by (simp add: example_dispatch_unknown delivered_def sent_empty_world example_kinds)

text \<open>
  C10. dispatchEvent returns nil for every event, registry and world. So a Publish returns
  an Internal error only with the cause that the tunnel gave, and the reader loop returns
  only nil and only when a select took the done context; it does return when one did.
\<close>

theorem dispatch_never_returns_error:
  "fst (dispatchEvent e event s w) = None \<and>
   (\<forall>err. fst (Publish e rq s w) = Inl (Connect CodeInternal err) \<longrightarrow>
      (\<exists>ev. fromV1PublishRequest e rq = Inr ev \<and> tunnel_Send e ev = Some err)) \<and>
   (\<forall>r s' w'. busMessageReader e cases s w = (Returned r, s', w') \<longrightarrow>
      r = None \<and> CtxDone \<in> set cases) \<and>
   (CtxDone \<in> set cases \<longrightarrow> (\<exists>s' w'. busMessageReader e cases s w = (Returned None, s', w')))"
  using Publish_Internal_only_from_tunnel busMessageReader_returns busMessageReader_stops
  by (simp add: dispatchEvent_world)

theorem dispatch_never_returns_error_witness:
  "fst (dispatchEvent example_env read_event example_server empty_world) = None \<and>
   CtxDone \<in> set [Inbound read_event, CtxDone] \<and>
   fst (busMessageReader example_env [Inbound read_event, CtxDone] example_server empty_world) =
     Returned None \<and>
   fst (busMessageReader example_env [Inbound read_event] example_server empty_world) = Waiting \<and>
   fst (Publish broken_tunnel_env write_123 example_server empty_world) =
     Inl (Connect CodeInternal (Plain ''tunnel closed'')) \<and>
   fromV1PublishRequest broken_tunnel_env write_123 = Inr write_event \<and>
   tunnel_Send broken_tunnel_env write_event = Some (Plain ''tunnel closed'')"
proof -
  note t = dispatch_never_returns_error
    [of example_env read_event example_server empty_world _ "[Inbound read_event, CtxDone]"]
  from t have c1: "fst (dispatchEvent example_env read_event example_server empty_world) = None"
    by blast
  have h2: "CtxDone \<in> set [Inbound read_event, CtxDone]" by simp
  from t h2 obtain s' w' where
    "busMessageReader example_env [Inbound read_event, CtxDone] example_server empty_world =
       (Returned None, s', w')"
    by blast
  then have c3: "fst (busMessageReader example_env [Inbound read_event, CtxDone]
                        example_server empty_world) = Returned None"
    by simp
  have c4: "fst (busMessageReader example_env [Inbound read_event] example_server empty_world) =
              Waiting"
    by (simp add: example_dispatch_read)
  have c6: "fromV1PublishRequest broken_tunnel_env write_123 = Inr write_event"
    by (rule example_convert)
  have c7: "tunnel_Send broken_tunnel_env write_event = Some (Plain ''tunnel closed'')"
    by (simp add: broken_tunnel_env_def)
  have c5: "fst (Publish broken_tunnel_env write_123 example_server empty_world) =
     Inl (Connect CodeInternal (Plain ''tunnel closed''))"
    by (simp add: Publish_def c6 c7 Let_def)
  show ?thesis by (intro conjI c1 h2 c3 c4 c5 c6 c7)
qed

end
